theory Spec2Isabelle
  imports Complex_Main
begin

section \<open>Data model of \<^verbatim>\<open>packages/auto-start/base.ts\<close>\<close>

text \<open>
  The concurrency caps are JavaScript numbers. The code only tests them for truthiness
  and compares them with integer counters, so a cap is a real number, one of the two
  infinities, or NaN (comparisons of doubles are exact).
\<close>

datatype jsnum = Num real | PosInfinity | NegInfinity | NaN

text \<open>ToBoolean of a number: \<^verbatim>\<open>0\<close> and \<^verbatim>\<open>NaN\<close> are falsy.\<close>

fun truthy :: "jsnum \<Rightarrow> bool" where
  "truthy (Num r) = (r \<noteq> 0)"
| "truthy PosInfinity = True"
| "truthy NegInfinity = True"
| "truthy NaN = False"

text \<open>\<^verbatim>\<open>counter >= cap\<close> for an integer counter.\<close>

fun count_ge :: "nat \<Rightarrow> jsnum \<Rightarrow> bool" where
  "count_ge n (Num r) = (r \<le> real n)"
| "count_ge n PosInfinity = False"
| "count_ge n NegInfinity = True"
| "count_ge n NaN = False"

text \<open>\<^verbatim>\<open>cap > 0\<close> and \<^verbatim>\<open>cap <= 0\<close>.\<close>

fun gt_zero :: "jsnum \<Rightarrow> bool" where
  "gt_zero (Num r) = (0 < r)"
| "gt_zero PosInfinity = True"
| "gt_zero NegInfinity = False"
| "gt_zero NaN = False"

fun le_zero :: "jsnum \<Rightarrow> bool" where
  "le_zero (Num r) = (r \<le> 0)"
| "le_zero PosInfinity = False"
| "le_zero NegInfinity = True"
| "le_zero NaN = False"

text \<open>An argument of \<^verbatim>\<open>interact.maxInteractions\<close> is any JavaScript value.\<close>

datatype jsval = VNumber jsnum | VUndefined | VNull | VBoolean bool | VString string | VObject

text \<open>\<^verbatim>\<open>utils.is.number\<close> is \<^verbatim>\<open>typeof thing === 'number'\<close>.\<close>

fun is_number :: "jsval \<Rightarrow> bool" where
  "is_number (VNumber n) = True"
| "is_number v = False"

type_synonym element = nat
type_synonym pointer = nat
type_synonym event = nat
type_synonym rect_box = "int \<times> int \<times> int \<times> int"

text \<open>
  \<^verbatim>\<open>PerActionDefaults\<close>: the option set of one action kind. The field \<^verbatim>\<open>max\<close> is
  named after the local variable that reads it, \<^verbatim>\<open>maxActions\<close>.
\<close>

record per_action =
  manualStart :: bool
  maxActions :: jsnum
  maxPerElement :: jsnum
  enabled :: bool
  allowFrom :: "string option"
  ignoreFrom :: "string option"

text \<open>
  \<^verbatim>\<open>interactable.options\<close>: the base flag \<^verbatim>\<open>styleCursor\<close> and one option set per
  action name. The external defaults give every interactable an option set for every
  action name, so \<^verbatim>\<open>options[name]\<close> is a total lookup.
\<close>

record options_bag =
  styleCursor :: bool
  perAction :: "string \<Rightarrow> per_action"

text \<open>An interactable is an object: \<^verbatim>\<open>!==\<close> compares identities, here \<open>iid\<close>.\<close>

record interactable_obj =
  iid :: nat
  options :: options_bag

text \<open>\<^verbatim>\<open>ActionProps\<close>; the name is \<^verbatim>\<open>null\<close> in \<^verbatim>\<open>{ name: null }\<close>.\<close>

record action =
  name :: "string option"
  axis :: "string option"
  edges :: "string list option"

text \<open>A property key: \<^verbatim>\<open>options[null]\<close> reads the property \<^verbatim>\<open>"null"\<close>.\<close>

fun prop_key :: "string option \<Rightarrow> string" where
  "prop_key None = ''null''"
| "prop_key (Some s) = s"

text \<open>Truthiness of \<^verbatim>\<open>prepared.name\<close>: \<^verbatim>\<open>null\<close> and the empty string are falsy.\<close>

fun truthy_name :: "string option \<Rightarrow> bool" where
  "truthy_name None = False"
| "truthy_name (Some s) = (s \<noteq> [])"

text \<open>
  An interaction (session). \<open>interacting\<close> is what the method \<^verbatim>\<open>interacting()\<close> of
  the external session returns.
\<close>

record session =
  pointerType :: string
  pointerIsDown :: bool
  pointerWasMoved :: bool
  interacting :: bool
  prepared :: action
  interactable :: "interactable_obj option"
  element :: "element option"
  rect :: "rect_box option"

text \<open>The result of \<^verbatim>\<open>validateMatches\<close> and \<^verbatim>\<open>getActionInfo\<close>.\<close>

record action_info =
  info_action :: "action option"
  info_interactable :: "interactable_obj option"
  info_element :: "element option"

text \<open>
  The scope, as far as this plugin reads and writes it: \<^verbatim>\<open>scope.autoStart\<close>, the list
  \<^verbatim>\<open>scope.interactions.list\<close> of references to sessions, the sessions themselves (a store
  from references to objects), and the \<^verbatim>\<open>style.cursor\<close> of every element.
\<close>

record scope =
  autoStart_maxInteractions :: jsnum
  autoStart_cursorElement :: "element option"
  interactions_list :: "nat list"
  heap :: "nat \<Rightarrow> session"
  style_cursor :: "element \<Rightarrow> string"

text \<open>
  The collaborators that are not part of this file: the target registry
  (\<^verbatim>\<open>forEachMatch\<close>), the methods of an interactable, the DOM
  (\<^verbatim>\<open>element.ownerDocument.documentElement\<close>), the cursor of an action kind, the signal
  bus (\<^verbatim>\<open>scope.signals.fire\<close>, whose observers may change the scope) and the
  \<^verbatim>\<open>start\<close> and \<^verbatim>\<open>stop\<close> operations of a session.
\<close>

record env =
  forEachMatch :: "element \<Rightarrow> interactable_obj list"
  getAction :: "interactable_obj \<Rightarrow> pointer \<Rightarrow> event \<Rightarrow> session \<Rightarrow> element \<Rightarrow> action option"
  testIgnoreAllow :: "interactable_obj \<Rightarrow> per_action \<Rightarrow> element \<Rightarrow> element \<Rightarrow> bool"
  getRect :: "interactable_obj \<Rightarrow> element option \<Rightarrow> rect_box"
  documentElement :: "element \<Rightarrow> element"
  cursorChecker :: "interactable_obj \<Rightarrow> string \<Rightarrow> (action \<Rightarrow> element option \<Rightarrow> bool \<Rightarrow> string) option"
  getCursor :: "string \<Rightarrow> action \<Rightarrow> string"
  fire :: "string \<Rightarrow> nat \<Rightarrow> scope \<Rightarrow> scope"
  start :: "nat \<Rightarrow> action \<Rightarrow> interactable_obj \<Rightarrow> element option \<Rightarrow> scope \<Rightarrow> scope"
  stop :: "nat \<Rightarrow> scope \<Rightarrow> scope"

text \<open>Reading a property of \<^verbatim>\<open>null\<close> throws.\<close>

datatype error = TypeError

section \<open>The admission check\<close>

text \<open>\<^verbatim>\<open>interaction.interactable !== interactable\<close>\<close>

fun other_interactable :: "interactable_obj option \<Rightarrow> interactable_obj \<Rightarrow> bool" where
  "other_interactable None i = True"
| "other_interactable (Some j) i = (iid j \<noteq> iid i)"

text \<open>
  The loop of \<^verbatim>\<open>withinInteractionLimit\<close> over the sessions that remain, with the
  counters \<^verbatim>\<open>activeInteractions\<close>, \<^verbatim>\<open>interactableCount\<close> and \<^verbatim>\<open>elementCount\<close>.
\<close>

fun limit_loop ::
  "interactable_obj \<Rightarrow> element option \<Rightarrow> action \<Rightarrow> jsnum \<Rightarrow> jsnum \<Rightarrow> jsnum \<Rightarrow>
   session list \<Rightarrow> nat \<Rightarrow> nat \<Rightarrow> nat \<Rightarrow> bool" where
  "limit_loop i el a maxA maxE autoStartMax [] activeInteractions interactableCount elementCount =
     gt_zero autoStartMax"
| "limit_loop i el a maxA maxE autoStartMax (s # rest) activeInteractions interactableCount elementCount =
     (let otherAction = name (prepared s) in
      if \<not> interacting s
      then limit_loop i el a maxA maxE autoStartMax rest activeInteractions interactableCount elementCount
      else if count_ge (activeInteractions + 1) autoStartMax then False
      else if other_interactable (interactable s) i
      then limit_loop i el a maxA maxE autoStartMax rest (activeInteractions + 1) interactableCount elementCount
      else
        let interactableCount' = interactableCount + (if otherAction = name a then 1 else 0) in
        if count_ge interactableCount' maxA then False
        else if element s = el
        then
          if otherAction = name a \<and> count_ge (elementCount + 1) maxE then False
          else limit_loop i el a maxA maxE autoStartMax rest
                 (activeInteractions + 1) interactableCount' (elementCount + 1)
        else limit_loop i el a maxA maxE autoStartMax rest
               (activeInteractions + 1) interactableCount' elementCount)"

definition withinInteractionLimit ::
  "interactable_obj \<Rightarrow> element option \<Rightarrow> action \<Rightarrow> scope \<Rightarrow> bool" where
  "withinInteractionLimit i el a sc =
     (let opts = perAction (options i) (prop_key (name a));
          maxA = maxActions opts;
          maxE = maxPerElement opts;
          autoStartMax = autoStart_maxInteractions sc
      in if \<not> (truthy maxA \<and> truthy maxE \<and> truthy autoStartMax) then False
         else limit_loop i el a maxA maxE autoStartMax
                (map (heap sc) (interactions_list sc)) 0 0 0)"

text \<open>The global setter and getter; \<open>This\<close> is what the setter returns.\<close>

datatype max_result = This | Cap jsnum

fun maxInteractions :: "jsval \<Rightarrow> scope \<Rightarrow> max_result \<times> scope" where
  "maxInteractions (VNumber n) sc = (This, sc\<lparr>autoStart_maxInteractions := n\<rparr>)"
| "maxInteractions newValue sc = (Cap (autoStart_maxInteractions sc), sc)"

section \<open>The resolver\<close>

definition validateAction ::
  "env \<Rightarrow> scope \<Rightarrow> action \<Rightarrow> interactable_obj \<Rightarrow> element \<Rightarrow> element \<Rightarrow> action option" where
  "validateAction e sc a i el eventTarget =
     (if testIgnoreAllow e i (perAction (options i) (prop_key (name a))) el eventTarget \<and>
         enabled (perAction (options i) (prop_key (name a))) \<and>
         withinInteractionLimit i (Some el) a sc
      then Some a else None)"

definition no_action :: action_info where
  "no_action = \<lparr>info_action = None, info_interactable = None, info_element = None\<rparr>"

text \<open>
  \<^verbatim>\<open>matches[i]\<close> and \<^verbatim>\<open>matchElements[i]\<close> are pushed together by \<^verbatim>\<open>pushMatches\<close>: the
  two arrays are one list of pairs. The session is the reference \<open>n\<close> into the store.
\<close>

fun validateMatches ::
  "env \<Rightarrow> scope \<Rightarrow> nat \<Rightarrow> pointer \<Rightarrow> event \<Rightarrow> (interactable_obj \<times> element) list \<Rightarrow> element \<Rightarrow>
   action_info" where
  "validateMatches e sc n p ev [] eventTarget = no_action"
| "validateMatches e sc n p ev ((match, matchElement) # rest) eventTarget =
     (case getAction e match p ev (heap sc n) matchElement of
        None \<Rightarrow> validateMatches e sc n p ev rest eventTarget
      | Some matchAction \<Rightarrow>
          (case validateAction e sc matchAction match matchElement eventTarget of
             Some a \<Rightarrow> \<lparr>info_action = Some a, info_interactable = Some match,
                        info_element = Some matchElement\<rparr>
           | None \<Rightarrow> validateMatches e sc n p ev rest eventTarget))"

text \<open>
  The \<^verbatim>\<open>while\<close> loop of \<^verbatim>\<open>getActionInfo\<close>. The DOM is not part of this file: the loop
  runs over the chain of elements that \<^verbatim>\<open>utils.dom.parentNode\<close> yields from the event
  target upward, as long as \<^verbatim>\<open>utils.is.element\<close> holds.
\<close>

fun climb ::
  "env \<Rightarrow> scope \<Rightarrow> nat \<Rightarrow> pointer \<Rightarrow> event \<Rightarrow> element \<Rightarrow> element list \<Rightarrow> error + action_info" where
  "climb e sc n p ev eventTarget [] = Inr no_action"
| "climb e sc n p ev eventTarget (el # parents) =
     (let matches = forEachMatch e el;
          matchElements = map (\<lambda>_. el) matches;
          actionInfo = validateMatches e sc n p ev (zip matches matchElements) eventTarget
      in case info_action actionInfo of
           None \<Rightarrow> climb e sc n p ev eventTarget parents
         | Some a \<Rightarrow>
             (case info_interactable actionInfo of
                None \<Rightarrow> Inl TypeError
              | Some i \<Rightarrow>
                  if \<not> manualStart (perAction (options i) (prop_key (name a)))
                  then Inr actionInfo
                  else climb e sc n p ev eventTarget parents))"

definition getActionInfo ::
  "env \<Rightarrow> scope \<Rightarrow> nat \<Rightarrow> pointer \<Rightarrow> event \<Rightarrow> element list \<Rightarrow> error + action_info" where
  "getActionInfo e sc n p ev ancestry =
     (case ancestry of
        [] \<Rightarrow> Inr no_action
      | eventTarget # _ \<Rightarrow> climb e sc n p ev eventTarget ancestry)"

section \<open>Cursor presentation\<close>

text \<open>
  \<^verbatim>\<open>setCursor\<close>. The caller passes \<^verbatim>\<open>interaction.element\<close>, which may be \<^verbatim>\<open>null\<close>:
  then \<^verbatim>\<open>element.ownerDocument\<close> throws, after the style of the recorded
  \<^verbatim>\<open>cursorElement\<close> was cleared.
\<close>

definition setCursor :: "env \<Rightarrow> element option \<Rightarrow> string \<Rightarrow> scope \<Rightarrow> error + scope" where
  "setCursor e elem cursor sc =
     (let sc1 = (case autoStart_cursorElement sc of
                   Some ce \<Rightarrow> sc\<lparr>style_cursor := (style_cursor sc)(ce := [])\<rparr>
                 | None \<Rightarrow> sc)
      in case elem of
           None \<Rightarrow> Inl TypeError
         | Some el \<Rightarrow>
             Inr (sc1\<lparr>style_cursor :=
                          (style_cursor sc1)(documentElement e el := cursor, el := cursor),
                      autoStart_cursorElement := (if cursor \<noteq> [] then Some el else None)\<rparr>))"

definition setInteractionCursor :: "env \<Rightarrow> nat \<Rightarrow> scope \<Rightarrow> error + scope" where
  "setInteractionCursor e n sc =
     (let s = heap sc n in
      case interactable s of
        None \<Rightarrow> Inr sc
      | Some i \<Rightarrow>
          if \<not> (pointerType s = ''mouse'' \<and> styleCursor (options i)) then Inr sc
          else
            let cursor =
              (if truthy_name (name (prepared s))
               then (case cursorChecker e i (prop_key (name (prepared s))) of
                       Some checker \<Rightarrow> checker (prepared s) (element s) (interacting s)
                     | None \<Rightarrow> getCursor e (prop_key (name (prepared s))) (prepared s))
               else [])
            in setCursor e (element s) cursor sc)"

section \<open>The lifecycle handlers\<close>

text \<open>
  Modelled from the spec: \<^verbatim>\<open>utils.copyAction\<close> is not in this file. The spec has
  \<^verbatim>\<open>prepare\<close> "record target/element/action on the session", an action being
  \<^verbatim>\<open>{ name, ...geometry hints }\<close>: the copy overwrites the name and the hints of the
  destination with those of the source.
\<close>

definition copyAction :: "action \<Rightarrow> action \<Rightarrow> action" where
  "copyAction dest src = dest\<lparr>name := name src, axis := axis src, edges := edges src\<rparr>"

definition prepare :: "env \<Rightarrow> nat \<Rightarrow> action_info \<Rightarrow> scope \<Rightarrow> error + scope" where
  "prepare e n info sc =
     (let a = (case info_action info of
                 Some act \<Rightarrow> act
               | None \<Rightarrow> \<lparr>name = None, axis = None, edges = None\<rparr>);
          cleared = (case interactable (heap sc n) of
                       Some old \<Rightarrow>
                         if styleCursor (options old)
                         then setCursor e (element (heap sc n)) [] sc
                         else Inr sc
                     | None \<Rightarrow> Inr sc)
      in case cleared of
           Inl err \<Rightarrow> Inl err
         | Inr sc1 \<Rightarrow>
             let s = heap sc1 n;
                 s' = s\<lparr>interactable := info_interactable info,
                        element := info_element info,
                        prepared := copyAction (prepared s) a,
                        rect := (case info_interactable info of
                                   Some i \<Rightarrow>
                                     if truthy_name (name a)
                                     then Some (getRect e i (info_element info))
                                     else None
                                 | None \<Rightarrow> None)\<rparr>;
                 sc2 = sc1\<lparr>heap := (heap sc1)(n := s')\<rparr>
             in case setInteractionCursor e n sc2 of
                  Inl err \<Rightarrow> Inl err
                | Inr sc3 \<Rightarrow> Inr (fire e ''autoStart:prepared'' n sc3))"

text \<open>
  A signal argument is \<^verbatim>\<open>{ interaction, pointer, event, eventTarget }\<close>; the event
  target comes with its chain of ancestors (the target first).
\<close>

definition prepareOnDown ::
  "env \<Rightarrow> nat \<Rightarrow> pointer \<Rightarrow> event \<Rightarrow> element list \<Rightarrow> scope \<Rightarrow> error + scope" where
  "prepareOnDown e n p ev ancestry sc =
     (if interacting (heap sc n) then Inr sc
      else case getActionInfo e sc n p ev ancestry of
             Inl err \<Rightarrow> Inl err
           | Inr actionInfo \<Rightarrow> prepare e n actionInfo sc)"

definition prepareOnMove ::
  "env \<Rightarrow> nat \<Rightarrow> pointer \<Rightarrow> event \<Rightarrow> element list \<Rightarrow> scope \<Rightarrow> error + scope" where
  "prepareOnMove e n p ev ancestry sc =
     (if pointerType (heap sc n) \<noteq> ''mouse'' \<or>
         pointerIsDown (heap sc n) \<or>
         interacting (heap sc n) then Inr sc
      else case getActionInfo e sc n p ev ancestry of
             Inl err \<Rightarrow> Inl err
           | Inr actionInfo \<Rightarrow> prepare e n actionInfo sc)"

definition startOnMove :: "env \<Rightarrow> nat \<Rightarrow> scope \<Rightarrow> error + scope" where
  "startOnMove e n sc =
     (if \<not> pointerIsDown (heap sc n) \<or>
         interacting (heap sc n) \<or>
         \<not> pointerWasMoved (heap sc n) \<or>
         \<not> truthy_name (name (prepared (heap sc n))) then Inr sc
      else
        let sc1 = fire e ''autoStart:before-start'' n sc;
            s = heap sc1 n
        in case interactable s of
             None \<Rightarrow> Inr sc1
           | Some i \<Rightarrow>
               if \<not> truthy_name (name (prepared s)) then Inr sc1
               else if manualStart (perAction (options i) (prop_key (name (prepared s)))) \<or>
                       \<not> withinInteractionLimit i (element s) (prepared s) sc1
               then Inr (stop e n sc1)
               else setInteractionCursor e n (start e n (prepared s) i (element s) sc1))"

definition clearCursorOnStop :: "env \<Rightarrow> nat \<Rightarrow> scope \<Rightarrow> error + scope" where
  "clearCursorOnStop e n sc =
     (case interactable (heap sc n) of
        Some i \<Rightarrow>
          if styleCursor (options i) then setCursor e (element (heap sc n)) [] sc
          else Inr sc
      | None \<Rightarrow> Inr sc)"

section \<open>Notions of the specification and example objects\<close>

text \<open>The number of active sessions of the live list.\<close>

definition active_count :: "scope \<Rightarrow> nat" where
  "active_count sc = length (filter interacting (map (heap sc) (interactions_list sc)))"

text \<open>
  An active session that shares the candidate's target, element and action name.
\<close>

definition same_slot :: "interactable_obj \<Rightarrow> element option \<Rightarrow> action \<Rightarrow> session \<Rightarrow> bool" where
  "same_slot i el a s =
     (interacting s \<and> \<not> other_interactable (interactable s) i \<and> element s = el \<and>
      name (prepared s) = name a)"

definition same_slot_count :: "interactable_obj \<Rightarrow> element option \<Rightarrow> action \<Rightarrow> scope \<Rightarrow> nat" where
  "same_slot_count i el a sc =
     length (filter (same_slot i el a) (map (heap sc) (interactions_list sc)))"

text \<open>
  What \<^verbatim>\<open>validateMatches\<close> returns at one element of the chain (the first candidate,
  in the order of the registry, whose proposed action is validated), and whether that
  match passes or fails the test \<^verbatim>\<open>!manualStart\<close> of \<^verbatim>\<open>getActionInfo\<close>.
\<close>

definition node_winner ::
  "env \<Rightarrow> scope \<Rightarrow> nat \<Rightarrow> pointer \<Rightarrow> event \<Rightarrow> element \<Rightarrow> element \<Rightarrow> action_info" where
  "node_winner e sc n p ev eventTarget el =
     validateMatches e sc n p ev
       (zip (forEachMatch e el) (map (\<lambda>_. el) (forEachMatch e el))) eventTarget"

definition auto_startable :: "action_info \<Rightarrow> bool" where
  "auto_startable info =
     (case info_action info of
        None \<Rightarrow> False
      | Some a \<Rightarrow>
          (case info_interactable info of
             None \<Rightarrow> False
           | Some i \<Rightarrow> \<not> manualStart (perAction (options i) (prop_key (name a)))))"

definition manual_match :: "action_info \<Rightarrow> bool" where
  "manual_match info =
     (case info_action info of
        None \<Rightarrow> False
      | Some a \<Rightarrow>
          (case info_interactable info of
             None \<Rightarrow> False
           | Some i \<Rightarrow> manualStart (perAction (options i) (prop_key (name a)))))"

text \<open>
  Every element that bears a cursor style is the recorded \<^verbatim>\<open>cursorElement\<close> or the
  document element of some element.
\<close>

definition cursor_inv :: "env \<Rightarrow> scope \<Rightarrow> bool" where
  "cursor_inv e sc =
     (\<forall>x. style_cursor sc x \<noteq> [] \<longrightarrow>
        autoStart_cursorElement sc = Some x \<or> (\<exists>y. documentElement e y = x))"

text \<open>The action \<^verbatim>\<open>{ name: null }\<close> that \<^verbatim>\<open>prepare\<close> records when nothing was resolved.\<close>

definition null_action :: action where
  "null_action = \<lparr>name = None, axis = None, edges = None\<rparr>"

text \<open>Concrete targets, sessions and scopes, for the examples.\<close>

definition ex_per_action :: "bool \<Rightarrow> jsnum \<Rightarrow> jsnum \<Rightarrow> per_action" where
  "ex_per_action manual m mpe =
     \<lparr>manualStart = manual, maxActions = m, maxPerElement = mpe, enabled = True,
      allowFrom = None, ignoreFrom = None\<rparr>"

definition ex_target :: "nat \<Rightarrow> per_action \<Rightarrow> interactable_obj" where
  "ex_target k pa = \<lparr>iid = k, options = \<lparr>styleCursor = True, perAction = (\<lambda>_. pa)\<rparr>\<rparr>"

definition ex_resize :: action where
  "ex_resize = \<lparr>name = Some ''resize'', axis = None, edges = None\<rparr>"

definition ex_drag :: action where
  "ex_drag = \<lparr>name = Some ''drag'', axis = None, edges = None\<rparr>"

definition ex_idle :: session where
  "ex_idle = \<lparr>pointerType = ''mouse'', pointerIsDown = False, pointerWasMoved = False,
     interacting = False, prepared = \<lparr>name = None, axis = None, edges = None\<rparr>,
     interactable = None, element = None, rect = None\<rparr>"

definition ex_active :: "interactable_obj \<Rightarrow> element \<Rightarrow> action \<Rightarrow> session" where
  "ex_active t el a = \<lparr>pointerType = ''mouse'', pointerIsDown = True, pointerWasMoved = True,
     interacting = True, prepared = a,
     interactable = Some t, element = Some el, rect = None\<rparr>"

definition ex_scope :: "jsnum \<Rightarrow> nat list \<Rightarrow> (nat \<Rightarrow> session) \<Rightarrow> scope" where
  "ex_scope cap refs hp = \<lparr>autoStart_maxInteractions = cap, autoStart_cursorElement = None,
     interactions_list = refs, heap = hp, style_cursor = (\<lambda>_. [])\<rparr>"

text \<open>
  Collaborators for the examples: element 1 matches a target whose drag needs a manual
  start, its parent element 2 a target whose drag starts automatically; every target
  proposes a drag; the document element is element 0; no observer changes the scope.
\<close>

definition ex_env :: env where
  "ex_env =
     \<lparr>forEachMatch = (\<lambda>el. if el = 1 then [ex_target 1 (ex_per_action True PosInfinity (Num 1))]
                           else if el = 2 then [ex_target 2 (ex_per_action False PosInfinity (Num 1))]
                           else []),
      getAction = (\<lambda>i p ev s el. Some ex_drag),
      testIgnoreAllow = (\<lambda>i pa el eventTarget. True),
      getRect = (\<lambda>i el. (0, 0, 10, 10)),
      documentElement = (\<lambda>el. 0),
      cursorChecker = (\<lambda>i nm. None),
      getCursor = (\<lambda>nm a. ''move''),
      fire = (\<lambda>nm n sc. sc),
      start = (\<lambda>n a i el sc. sc\<lparr>heap := (heap sc)(n := (heap sc n)\<lparr>interacting := True\<rparr>)\<rparr>),
      stop = (\<lambda>n sc. sc\<lparr>heap := (heap sc)(n := (heap sc n)
                \<lparr>interacting := False, interactable := None, element := None,
                 prepared := (prepared (heap sc n))\<lparr>name := None\<rparr>\<rparr>)\<rparr>)\<rparr>"


text \<open>A session that is prepared on a target, pointer down and moved, not yet active.\<close>

definition ex_prepared :: "interactable_obj \<Rightarrow> element \<Rightarrow> action \<Rightarrow> session" where
  "ex_prepared t el a = (ex_active t el a)\<lparr>interacting := False\<rparr>"

text \<open>A hovering session of a touch pointer.\<close>

definition ex_touch :: session where
  "ex_touch = ex_idle\<lparr>pointerType := ''touch''\<rparr>"

text \<open>
  The same collaborators with an observer of \<^verbatim>\<open>autoStart:before-start\<close> that vetoes the
  start by clearing \<^verbatim>\<open>prepared.name\<close>, as a hold delay does.
\<close>

definition ex_veto_env :: env where
  "ex_veto_env =
     ex_env\<lparr>fire := (\<lambda>nm n sc. sc\<lparr>heap := (heap sc)(n := (heap sc n)
               \<lparr>prepared := (prepared (heap sc n))\<lparr>name := None\<rparr>\<rparr>)\<rparr>)\<rparr>"

text \<open>
  A scope whose only session hovers, prepared for a drag on element 2, with the cursor
  of that element (and of the document element) set.
\<close>

definition ex_hovering :: scope where
  "ex_hovering =
     \<lparr>autoStart_maxInteractions = PosInfinity, autoStart_cursorElement = Some 2,
      interactions_list = [0],
      heap = (\<lambda>_. ex_idle\<lparr>prepared := ex_drag,
                interactable := Some (ex_target 2 (ex_per_action False PosInfinity (Num 1))),
                element := Some 2\<rparr>),
      style_cursor = (\<lambda>el. if el = 0 \<or> el = 2 then ''move'' else [])\<rparr>"

section \<open>Properties of the admission check\<close>

lemma limit_loop_positive_cap:
  "limit_loop i el a maxA maxE g ss act ic ec \<Longrightarrow> gt_zero g"
  by (induction ss arbitrary: act ic ec) (auto simp: Let_def split: if_splits)

lemma le_zero_not_both: "le_zero g \<Longrightarrow> gt_zero g \<Longrightarrow> False"
  by (cases g) auto

lemma withinInteractionLimit_caps:
  assumes "withinInteractionLimit i el a sc"
  shows "truthy (maxActions (perAction (options i) (prop_key (name a))))"
    and "truthy (maxPerElement (perAction (options i) (prop_key (name a))))"
    and "gt_zero (autoStart_maxInteractions sc)"
proof -
  let ?o = "perAction (options i) (prop_key (name a))"
  from assms have t: "truthy (maxActions ?o) \<and> truthy (maxPerElement ?o) \<and>
      truthy (autoStart_maxInteractions sc)"
    unfolding withinInteractionLimit_def Let_def by (simp split: if_splits)
  with assms have "limit_loop i el a (maxActions ?o) (maxPerElement ?o)
      (autoStart_maxInteractions sc) (map (heap sc) (interactions_list sc)) 0 0 0"
    unfolding withinInteractionLimit_def Let_def by simp
  then show "gt_zero (autoStart_maxInteractions sc)" by (rule limit_loop_positive_cap)
  from t show "truthy (maxActions ?o)" "truthy (maxPerElement ?o)" by simp_all
qed

text \<open>
  C1 (as amended). \<^verbatim>\<open>withinInteractionLimit\<close> returns false whenever the target's cap
  \<^verbatim>\<open>max\<close> for the action is 0, its per-element cap is 0, or the global cap is at most 0
  (negative values included), whatever the sessions of the live list are.
\<close>

theorem zero_cap_rejects:
  assumes "maxActions (perAction (options i) (prop_key (name a))) = Num 0 \<or>
           maxPerElement (perAction (options i) (prop_key (name a))) = Num 0 \<or>
           le_zero (autoStart_maxInteractions sc)"
  shows "\<not> withinInteractionLimit i el a sc"
proof
  assume w: "withinInteractionLimit i el a sc"
  from assms show False
  proof (elim disjE)
    assume "maxActions (perAction (options i) (prop_key (name a))) = Num 0"
    with withinInteractionLimit_caps(1) [OF w] show False by simp
  next
    assume "maxPerElement (perAction (options i) (prop_key (name a))) = Num 0"
    with withinInteractionLimit_caps(2) [OF w] show False by simp
  next
    assume "le_zero (autoStart_maxInteractions sc)"
    with withinInteractionLimit_caps(3) [OF w] show False by (blast dest: le_zero_not_both)
  qed
qed

theorem zero_cap_rejects_witness:
  "le_zero (autoStart_maxInteractions
      (ex_scope (Num (- 2)) [0]
         (\<lambda>_. ex_active (ex_target 1 (ex_per_action False PosInfinity PosInfinity)) 5 ex_drag))) \<and>
   \<not> withinInteractionLimit (ex_target 1 (ex_per_action False PosInfinity PosInfinity))
        (Some 5) ex_drag
        (ex_scope (Num (- 2)) [0]
           (\<lambda>_. ex_active (ex_target 1 (ex_per_action False PosInfinity PosInfinity)) 5 ex_drag))"
proof -
  let ?sc = "ex_scope (Num (- 2)) [0]
     (\<lambda>_. ex_active (ex_target 1 (ex_per_action False PosInfinity PosInfinity)) 5 ex_drag)"
  have h: "le_zero (autoStart_maxInteractions ?sc)"
    by (simp add: ex_scope_def)
  from zero_cap_rejects [where sc = ?sc and el = "Some 5", OF disjI2 [OF disjI2 [OF h]]] h
  show ?thesis by blast
qed

text \<open>
  The claim as the specification states it fails: the guard tests \<^verbatim>\<open>max\<close> and
  \<^verbatim>\<open>maxPerElement\<close> for truthiness only, so a target whose \<^verbatim>\<open>max\<close> is \<open>-1\<close> is
  admitted when no session is active.
\<close>

theorem negative_max_admitted:
  "le_zero (maxActions (perAction (options (ex_target 1 (ex_per_action False (Num (- 1)) (Num 1))))
        (prop_key (name ex_drag)))) \<and>
   withinInteractionLimit (ex_target 1 (ex_per_action False (Num (- 1)) (Num 1))) (Some 5) ex_drag
     (ex_scope PosInfinity [] (\<lambda>_. ex_idle))"
  by (simp add: withinInteractionLimit_def ex_target_def ex_per_action_def ex_drag_def ex_scope_def)

lemma count_ge_mono: "count_ge n c \<Longrightarrow> n \<le> m \<Longrightarrow> count_ge m c"
  by (cases c) auto

lemma limit_loop_global_reject:
  "0 < length (filter interacting ss) \<Longrightarrow>
   count_ge (act + length (filter interacting ss)) g \<Longrightarrow>
   \<not> limit_loop i el a maxA maxE g ss act ic ec"
proof (induction ss arbitrary: act ic ec)
  case Nil
  then show ?case by simp
next
  case (Cons s ss)
  show ?case
  proof (cases "interacting s")
    case False
    with Cons show ?thesis by simp
  next
    case True
    show ?thesis
    proof (cases "count_ge (act + 1) g")
      case True
      with \<open>interacting s\<close> show ?thesis by simp
    next
      case False
      with Cons.prems True have pos: "0 < length (filter interacting ss)"
        by (cases "length (filter interacting ss)") auto
      from Cons.prems True
      have ge: "count_ge ((act + 1) + length (filter interacting ss)) g" by simp
      have "\<not> limit_loop i el a maxA maxE g ss (act + 1) ic' ec'" for ic' ec'
        using Cons.IH [OF pos ge] .
      with True False show ?thesis by (simp add: Let_def)
    qed
  qed
qed

lemma limit_loop_unbounded:
  "limit_loop i el a PosInfinity PosInfinity (Num r) ss act ic ec =
     (0 < r \<and> (length (filter interacting ss) = 0 \<or>
               real (act + length (filter interacting ss)) < r))"
proof (induction ss arbitrary: act ic ec)
  case Nil
  then show ?case by simp
next
  case (Cons s ss)
  show ?case
  proof (cases "interacting s")
    case False
    with Cons show ?thesis by simp
  next
    case True
    have step: "limit_loop i el a PosInfinity PosInfinity (Num r) (s # ss) act ic ec =
        (\<not> r \<le> real (act + 1) \<and>
         (0 < r \<and> (length (filter interacting ss) = 0 \<or>
               real ((act + 1) + length (filter interacting ss)) < r)))"
      using True by (simp add: Let_def Cons.IH)
    show ?thesis unfolding step using True by auto
  qed
qed

lemma limit_loop_element_reject:
  "0 < length (filter (same_slot i el a) ss) \<Longrightarrow>
   count_ge (ec + length (filter (same_slot i el a) ss)) maxE \<Longrightarrow>
   \<not> limit_loop i el a maxA maxE g ss act ic ec"
proof (induction ss arbitrary: act ic ec)
  case Nil
  then show ?case by simp
next
  case (Cons s ss)
  let ?k = "length (filter (same_slot i el a) ss)"
  show ?case
  proof (cases "same_slot i el a s")
    case True
    then have s: "interacting s" "\<not> other_interactable (interactable s) i" "element s = el"
      "name (prepared s) = name a" by (simp_all add: same_slot_def)
    show ?thesis
    proof (cases "count_ge (ec + 1) maxE")
      case True
      with s show ?thesis by (simp add: Let_def)
    next
      case False
      with Cons.prems \<open>same_slot i el a s\<close> have pos: "0 < ?k"
        by (cases ?k) auto
      from Cons.prems \<open>same_slot i el a s\<close> have "count_ge ((ec + 1) + ?k) maxE" by simp
      from Cons.IH [OF pos this]
      have "\<not> limit_loop i el a maxA maxE g ss act' ic' (ec + 1)" for act' ic' .
      with s show ?thesis by (simp add: Let_def)
    qed
  next
    case False
    with Cons.prems have pos: "0 < ?k" and ge: "count_ge (ec + ?k) maxE" by simp_all
    from count_ge_mono [OF ge] have ge': "count_ge ((ec + 1) + ?k) maxE" by simp
    have a: "\<not> limit_loop i el a maxA maxE g ss act' ic' ec" for act' ic'
      using Cons.IH [OF pos ge] .
    have b: "\<not> limit_loop i el a maxA maxE g ss act' ic' (ec + 1)" for act' ic'
      using Cons.IH [OF pos ge'] .
    from a b show ?thesis by (simp add: Let_def)
  qed
qed


lemma limit_loop_skips_inactive:
  "limit_loop i el a maxA maxE g (filter interacting ss) act ic ec =
   limit_loop i el a maxA maxE g ss act ic ec"
  by (induction ss arbitrary: act ic ec) (simp_all add: Let_def)

lemma active_removeAll:
  "\<not> interacting (hp n) \<Longrightarrow>
   filter interacting (map hp (removeAll n refs)) = filter interacting (map hp refs)"
  by (induction refs) auto

lemma withinInteractionLimit_without_inactive:
  assumes "\<not> interacting (heap sc n)"
  shows "withinInteractionLimit i el a (sc\<lparr>interactions_list := removeAll n (interactions_list sc)\<rparr>) =
         withinInteractionLimit i el a sc"
proof -
  have "limit_loop i el a maxA maxE g (map (heap sc) (removeAll n (interactions_list sc))) 0 0 0 =
        limit_loop i el a maxA maxE g (map (heap sc) (interactions_list sc)) 0 0 0" for maxA maxE g
    using limit_loop_skips_inactive [of i el a maxA maxE g "map (heap sc) (removeAll n (interactions_list sc))" 0 0 0]
      limit_loop_skips_inactive [of i el a maxA maxE g "map (heap sc) (interactions_list sc)" 0 0 0]
      active_removeAll [where hp = "heap sc" and n = n and refs = "interactions_list sc"] assms
    by simp
  then show ?thesis by (simp add: withinInteractionLimit_def Let_def)
qed

lemma global_cap_reached:
  assumes "autoStart_maxInteractions sc = Num (real N)" and "N \<le> active_count sc"
  shows "\<not> withinInteractionLimit i el a sc"
proof (cases "active_count sc = 0")
  case True
  with assms have "autoStart_maxInteractions sc = Num 0" by simp
  then show ?thesis by (simp add: withinInteractionLimit_def Let_def)
next
  case False
  let ?ss = "map (heap sc) (interactions_list sc)"
  from False have pos: "0 < length (filter interacting ?ss)" by (simp add: active_count_def)
  from assms have "count_ge (0 + length (filter interacting ?ss)) (autoStart_maxInteractions sc)"
    by (simp add: active_count_def)
  from limit_loop_global_reject [OF pos this] show ?thesis
    by (simp add: withinInteractionLimit_def Let_def)
qed

lemma global_cap_only:
  assumes "maxActions (perAction (options i) (prop_key (name a))) = PosInfinity"
    and "maxPerElement (perAction (options i) (prop_key (name a))) = PosInfinity"
    and "autoStart_maxInteractions sc = Num (real N)"
  shows "withinInteractionLimit i el a sc \<longleftrightarrow> active_count sc < N"
  using assms
  by (auto simp: withinInteractionLimit_def Let_def limit_loop_unbounded active_count_def)

text \<open>
  C4. With a finite global cap \<open>N\<close>, a candidate is rejected when \<open>N\<close> (or more) sessions
  are active, whatever the caps of the target are: the total is compared with the global
  cap first. When the caps of the target are unbounded, the candidate is admitted when
  exactly \<open>N - 1\<close> sessions are active, and admission is the same as fewer than \<open>N\<close>
  active sessions. A session of the list that is not active, as the candidate's own
  session is, is not counted: the check gives the same answer without it.
\<close>

theorem global_cap_boundary:
  assumes "autoStart_maxInteractions sc = Num (real N)"
  shows "(N \<le> active_count sc \<longrightarrow> \<not> withinInteractionLimit i el a sc) \<and>
         (maxActions (perAction (options i) (prop_key (name a))) = PosInfinity \<and>
          maxPerElement (perAction (options i) (prop_key (name a))) = PosInfinity \<longrightarrow>
            (0 < N \<and> active_count sc = N - 1 \<longrightarrow> withinInteractionLimit i el a sc) \<and>
            (withinInteractionLimit i el a sc \<longleftrightarrow> active_count sc < N)) \<and>
         (\<not> interacting (heap sc n) \<longrightarrow>
            withinInteractionLimit i el a
              (sc\<lparr>interactions_list := removeAll n (interactions_list sc)\<rparr>) =
            withinInteractionLimit i el a sc)"
proof (intro conjI impI)
  assume "N \<le> active_count sc"
  with assms show "\<not> withinInteractionLimit i el a sc" by (rule global_cap_reached)
next
  assume u: "maxActions (perAction (options i) (prop_key (name a))) = PosInfinity \<and>
          maxPerElement (perAction (options i) (prop_key (name a))) = PosInfinity"
  then show "withinInteractionLimit i el a sc \<longleftrightarrow> active_count sc < N"
    using assms by (simp add: global_cap_only)
  assume "0 < N \<and> active_count sc = N - 1"
  then have "active_count sc < N" by simp
  with u assms show "withinInteractionLimit i el a sc" by (simp add: global_cap_only)
next
  assume "\<not> interacting (heap sc n)"
  then show "withinInteractionLimit i el a
      (sc\<lparr>interactions_list := removeAll n (interactions_list sc)\<rparr>) =
      withinInteractionLimit i el a sc"
    by (rule withinInteractionLimit_without_inactive)
qed

text \<open>
  With the global cap 2 and unbounded caps of the target: one session active and the
  candidate's own idle session in the list, the candidate is admitted; two sessions
  active, it is rejected.
\<close>

theorem global_cap_boundary_witness:
  "withinInteractionLimit (ex_target 1 (ex_per_action False PosInfinity PosInfinity)) (Some 5) ex_drag
     (ex_scope (Num (real 2)) [0, 1]
        (\<lambda>k. if k = 0 then ex_active (ex_target 1 (ex_per_action False PosInfinity PosInfinity)) 6 ex_drag
             else ex_idle)) \<and>
   \<not> withinInteractionLimit (ex_target 1 (ex_per_action False PosInfinity PosInfinity)) (Some 5) ex_drag
     (ex_scope (Num (real 2)) [0, 1]
        (\<lambda>k. ex_active (ex_target 1 (ex_per_action False PosInfinity PosInfinity)) 6 ex_drag))"
proof -
  let ?t = "ex_target 1 (ex_per_action False PosInfinity PosInfinity)"
  let ?one = "ex_scope (Num (real 2)) [0, 1] (\<lambda>k. if k = 0 then ex_active ?t 6 ex_drag else ex_idle)"
  let ?two = "ex_scope (Num (real 2)) [0, 1] (\<lambda>k. ex_active ?t 6 ex_drag)"
  have cap1: "autoStart_maxInteractions ?one = Num (real 2)"
    and cap2: "autoStart_maxInteractions ?two = Num (real 2)"
    by (simp_all add: ex_scope_def)
  have unb: "maxActions (perAction (options ?t) (prop_key (name ex_drag))) = PosInfinity \<and>
      maxPerElement (perAction (options ?t) (prop_key (name ex_drag))) = PosInfinity"
    by (simp add: ex_target_def ex_per_action_def)
  have n1: "0 < (2::nat) \<and> active_count ?one = 2 - 1"
    by (simp add: active_count_def ex_scope_def ex_active_def ex_idle_def)
  have n2: "2 \<le> active_count ?two"
    by (simp add: active_count_def ex_scope_def ex_active_def)
  from global_cap_boundary [OF cap1, where i = ?t and a = ex_drag and el = "Some 5" and n = 1] unb n1
  have "withinInteractionLimit ?t (Some 5) ex_drag ?one" by blast
  moreover from global_cap_boundary [OF cap2, where i = ?t and a = ex_drag and el = "Some 5" and n = 1] n2
  have "\<not> withinInteractionLimit ?t (Some 5) ex_drag ?two" by blast
  ultimately show ?thesis by blast
qed

text \<open>
  C2 (as amended). The per-element check counts active sessions of the candidate's target
  on the candidate's element, and fires at a session with the candidate's action name:
  the candidate is rejected whenever the number of active sessions that share its
  target, its element and its action name is positive and reaches \<^verbatim>\<open>maxPerElement\<close>.
  So with \<^verbatim>\<open>maxPerElement\<close> = 1 a candidate is rejected as soon as one session of the
  live list is active on the same target and element for the same action.
\<close>

theorem per_element_cap_rejects:
  "(0 < same_slot_count i el a sc \<and>
    count_ge (same_slot_count i el a sc)
      (maxPerElement (perAction (options i) (prop_key (name a)))) \<longrightarrow>
      \<not> withinInteractionLimit i el a sc) \<and>
   (maxPerElement (perAction (options i) (prop_key (name a))) = Num 1 \<and>
    n \<in> set (interactions_list sc) \<and> same_slot i el a (heap sc n) \<longrightarrow>
      \<not> withinInteractionLimit i el a sc)"
proof -
  let ?ss = "map (heap sc) (interactions_list sc)"
  let ?maxE = "maxPerElement (perAction (options i) (prop_key (name a)))"
  have main: "\<not> withinInteractionLimit i el a sc"
    if "0 < same_slot_count i el a sc" "count_ge (same_slot_count i el a sc) ?maxE"
  proof -
    from that have "0 < length (filter (same_slot i el a) ?ss)"
      and "count_ge (0 + length (filter (same_slot i el a) ?ss)) ?maxE"
      by (simp_all add: same_slot_count_def)
    from limit_loop_element_reject [OF this] show ?thesis
      by (simp add: withinInteractionLimit_def Let_def)
  qed
  have one: "\<not> withinInteractionLimit i el a sc"
    if "?maxE = Num 1" "n \<in> set (interactions_list sc)" "same_slot i el a (heap sc n)"
  proof -
    from that(2,3) have "heap sc n \<in> set (filter (same_slot i el a) ?ss)" by simp
    then have "0 < length (filter (same_slot i el a) ?ss)"
      by (cases "filter (same_slot i el a) ?ss") auto
    then have pos: "0 < same_slot_count i el a sc" by (simp add: same_slot_count_def)
    then have "count_ge (same_slot_count i el a sc) ?maxE" using that(1) by simp
    with pos show ?thesis by (rule main)
  qed
  from main one show ?thesis by blast
qed

theorem per_element_cap_rejects_witness:
  "\<not> withinInteractionLimit (ex_target 1 (ex_per_action False PosInfinity (Num 1))) (Some 5) ex_drag
       (ex_scope PosInfinity [0]
          (\<lambda>_. ex_active (ex_target 1 (ex_per_action False PosInfinity (Num 1))) 5 ex_drag))"
proof -
  let ?t = "ex_target 1 (ex_per_action False PosInfinity (Num 1))"
  let ?sc = "ex_scope PosInfinity [0] (\<lambda>_. ex_active ?t 5 ex_drag)"
  have "maxPerElement (perAction (options ?t) (prop_key (name ex_drag))) = Num 1 \<and>
      0 \<in> set (interactions_list ?sc) \<and> same_slot ?t (Some 5) ex_drag (heap ?sc 0)"
    by (simp add: ex_target_def ex_per_action_def ex_scope_def same_slot_def ex_active_def)
  with per_element_cap_rejects [where i = ?t and el = "Some 5" and a = ex_drag and sc = ?sc and n = 0] show ?thesis by blast
qed

text \<open>
  The claim as the specification states it fails. A session of another target is
  skipped before the element is looked at: with \<^verbatim>\<open>maxPerElement\<close> = 1, a candidate is
  admitted on element 5 for the action drag while a session of the other target is
  active on element 5 for the action drag.
\<close>

theorem other_target_same_element_admitted:
  "interacting (ex_active (ex_target 2 (ex_per_action False PosInfinity (Num 1))) 5 ex_drag) \<and>
   element (ex_active (ex_target 2 (ex_per_action False PosInfinity (Num 1))) 5 ex_drag) = Some 5 \<and>
   name (prepared (ex_active (ex_target 2 (ex_per_action False PosInfinity (Num 1))) 5 ex_drag)) =
     name ex_drag \<and>
   maxPerElement (perAction (options (ex_target 1 (ex_per_action False PosInfinity (Num 1))))
     (prop_key (name ex_drag))) = Num 1 \<and>
   withinInteractionLimit (ex_target 1 (ex_per_action False PosInfinity (Num 1))) (Some 5) ex_drag
     (ex_scope PosInfinity [0]
        (\<lambda>_. ex_active (ex_target 2 (ex_per_action False PosInfinity (Num 1))) 5 ex_drag))"
  by (simp add: withinInteractionLimit_def ex_target_def ex_per_action_def ex_drag_def
      ex_scope_def ex_active_def)

text \<open>
  The element counter is also incremented for a session of the same target and element
  whose action name differs, and the test fires only at a session with the candidate's
  name: with \<^verbatim>\<open>maxPerElement\<close> = 2, one active resize and one active drag on
  element 5, a second drag is rejected when the resize is scanned first and admitted when
  it is scanned last.
\<close>

lemma element_count_ignores_action_name:
  "\<not> withinInteractionLimit (ex_target 1 (ex_per_action False PosInfinity (Num 2))) (Some 5) ex_drag
       (ex_scope PosInfinity [0, 1]
          (\<lambda>k. ex_active (ex_target 1 (ex_per_action False PosInfinity (Num 2))) 5
                 (if k = 0 then ex_resize else ex_drag))) \<and>
   withinInteractionLimit (ex_target 1 (ex_per_action False PosInfinity (Num 2))) (Some 5) ex_drag
       (ex_scope PosInfinity [0, 1]
          (\<lambda>k. ex_active (ex_target 1 (ex_per_action False PosInfinity (Num 2))) 5
                 (if k = 0 then ex_drag else ex_resize)))"
  by (simp add: withinInteractionLimit_def ex_target_def ex_per_action_def ex_drag_def
      ex_resize_def ex_scope_def ex_active_def)

section \<open>The global setter and getter\<close>

text \<open>
  C8. \<^verbatim>\<open>maxInteractions\<close> called with a number sets the global cap to that number;
  called with any value that is not a number it returns the current global cap and
  leaves the scope as it is. After \<^verbatim>\<open>maxInteractions(2)\<close>, a call with a value that is
  not a number returns 2 and the cap is still 2.
\<close>

theorem maxInteractions_setter_getter:
  "(\<forall>x. maxInteractions (VNumber x) sc = (This, sc\<lparr>autoStart_maxInteractions := x\<rparr>)) \<and>
   (\<forall>v. \<not> is_number v \<longrightarrow> maxInteractions v sc = (Cap (autoStart_maxInteractions sc), sc)) \<and>
   (\<forall>v. \<not> is_number v \<longrightarrow>
      maxInteractions v (snd (maxInteractions (VNumber (Num 2)) sc)) =
        (Cap (Num 2), sc\<lparr>autoStart_maxInteractions := Num 2\<rparr>))"
proof -
  have getter: "maxInteractions v s = (Cap (autoStart_maxInteractions s), s)"
    if "\<not> is_number v" for v s
    using that by (cases v) simp_all
  show ?thesis by (simp add: getter)
qed

theorem maxInteractions_setter_getter_witness:
  "\<not> is_number (VString ''two'') \<and>
   maxInteractions (VString ''two'')
     (snd (maxInteractions (VNumber (Num 2)) (ex_scope PosInfinity [] (\<lambda>_. ex_idle)))) =
     (Cap (Num 2), (ex_scope PosInfinity [] (\<lambda>_. ex_idle))\<lparr>autoStart_maxInteractions := Num 2\<rparr>)"
proof -
  have h: "\<not> is_number (VString ''two'')" by simp
  from maxInteractions_setter_getter [of "ex_scope PosInfinity [] (\<lambda>_. ex_idle)"] h
  show ?thesis by blast
qed

section \<open>Properties of the resolver\<close>

lemma validateMatches_sound:
  assumes "info_action (validateMatches e sc n p ev pairs eventTarget) = Some a"
  shows "\<exists>m me. (m, me) \<in> set pairs \<and>
           validateMatches e sc n p ev pairs eventTarget =
             \<lparr>info_action = Some a, info_interactable = Some m, info_element = Some me\<rparr> \<and>
           getAction e m p ev (heap sc n) me = Some a \<and>
           validateAction e sc a m me eventTarget = Some a"
  using assms
proof (induction pairs)
  case Nil
  then show ?case by (simp add: no_action_def)
next
  case (Cons pr pairs)
  obtain m me where pr: "pr = (m, me)" by (cases pr)
  show ?case
  proof (cases "getAction e m p ev (heap sc n) me")
    case None
    with Cons pr show ?thesis by auto
  next
    case (Some ma)
    show ?thesis
    proof (cases "validateAction e sc ma m me eventTarget")
      case None
      with Cons pr Some show ?thesis by auto
    next
      case (Some b)
      then have "b = ma" by (simp add: validateAction_def split: if_splits)
      with Cons.prems pr Some \<open>getAction e m p ev (heap sc n) me = Some ma\<close>
      show ?thesis by auto
    qed
  qed
qed

lemma node_winner_target:
  assumes "info_action (node_winner e sc n p ev eventTarget el) = Some a"
  shows "\<exists>m. m \<in> set (forEachMatch e el) \<and>
           node_winner e sc n p ev eventTarget el =
             \<lparr>info_action = Some a, info_interactable = Some m, info_element = Some el\<rparr> \<and>
           getAction e m p ev (heap sc n) el = Some a \<and>
           validateAction e sc a m el eventTarget = Some a"
proof -
  from validateMatches_sound [OF assms [unfolded node_winner_def]]
  obtain m me where h: "(m, me) \<in> set (zip (forEachMatch e el) (map (\<lambda>_. el) (forEachMatch e el)))"
    "node_winner e sc n p ev eventTarget el =
       \<lparr>info_action = Some a, info_interactable = Some m, info_element = Some me\<rparr>"
    "getAction e m p ev (heap sc n) me = Some a"
    "validateAction e sc a m me eventTarget = Some a"
    unfolding node_winner_def by blast
  from h(1) have "m \<in> set (forEachMatch e el)" "me = el"
    by (auto dest: set_zip_leftD set_zip_rightD)
  with h show ?thesis by blast
qed

lemma climb_step:
  "climb e sc n p ev eventTarget (el # parents) =
     (if auto_startable (node_winner e sc n p ev eventTarget el)
      then Inr (node_winner e sc n p ev eventTarget el)
      else climb e sc n p ev eventTarget parents)"
proof (cases "info_action (node_winner e sc n p ev eventTarget el)")
  case None
  then show ?thesis
    by (simp add: Let_def auto_startable_def node_winner_def)
next
  case (Some a)
  from node_winner_target [OF Some] obtain m where
    "node_winner e sc n p ev eventTarget el =
       \<lparr>info_action = Some a, info_interactable = Some m, info_element = Some el\<rparr>" by blast
  then show ?thesis
    by (simp add: Let_def auto_startable_def node_winner_def)
qed

lemma climb_first_auto:
  assumes "\<forall>x\<in>set pre. \<not> auto_startable (node_winner e sc n p ev eventTarget x)"
    and "auto_startable (node_winner e sc n p ev eventTarget el)"
  shows "climb e sc n p ev eventTarget (pre @ el # post) =
           Inr (node_winner e sc n p ev eventTarget el)"
  using assms by (induction pre) (simp_all add: climb_step del: climb.simps(2))

lemma climb_exhausted:
  assumes "\<forall>x\<in>set anc. \<not> auto_startable (node_winner e sc n p ev eventTarget x)"
  shows "climb e sc n p ev eventTarget anc = Inr no_action"
  using assms by (induction anc) (simp_all add: climb_step del: climb.simps(2))

lemma climb_result:
  "climb e sc n p ev eventTarget anc = Inr no_action \<or>
   (\<exists>x\<in>set anc. auto_startable (node_winner e sc n p ev eventTarget x) \<and>
      climb e sc n p ev eventTarget anc = Inr (node_winner e sc n p ev eventTarget x))"
  by (induction anc) (auto simp add: climb_step simp del: climb.simps(2))


lemma getActionInfo_climb:
  "getActionInfo e sc n p ev anc =
     (if anc = [] then Inr no_action else climb e sc n p ev (hd anc) anc)"
  by (cases anc) (simp_all add: getActionInfo_def)

text \<open>
  C3. \<^verbatim>\<open>getActionInfo\<close> returns the match of the first element of the chain whose
  validated match does not have \<^verbatim>\<open>manualStart\<close> set: it climbs past every element with
  no validated match or with a manual-start match. When no element of the chain has such
  a match (only manual-start matches were seen, or none), it returns
  \<^verbatim>\<open>{ action: null, interactable: null, element: null }\<close>. With the chain
  [child, parent], a manual-start match at the child and an auto-start match at the
  parent, it returns the parent's match.
\<close>

theorem resolver_first_auto_start:
  "(ancestry = pre @ el # post \<and>
    (\<forall>x\<in>set pre. \<not> auto_startable (node_winner e sc n p ev (hd ancestry) x)) \<and>
    auto_startable (node_winner e sc n p ev (hd ancestry) el) \<longrightarrow>
      getActionInfo e sc n p ev ancestry = Inr (node_winner e sc n p ev (hd ancestry) el)) \<and>
   ((\<forall>x\<in>set ancestry. \<not> auto_startable (node_winner e sc n p ev (hd ancestry) x)) \<longrightarrow>
      getActionInfo e sc n p ev ancestry = Inr no_action) \<and>
   (manual_match (node_winner e sc n p ev child child) \<and>
    auto_startable (node_winner e sc n p ev child parent) \<longrightarrow>
      getActionInfo e sc n p ev [child, parent] = Inr (node_winner e sc n p ev child parent))"
proof (intro conjI impI)
  assume h: "ancestry = pre @ el # post \<and>
    (\<forall>x\<in>set pre. \<not> auto_startable (node_winner e sc n p ev (hd ancestry) x)) \<and>
    auto_startable (node_winner e sc n p ev (hd ancestry) el)"
  then have anc: "ancestry = pre @ el # post"
    and pre: "\<forall>x\<in>set pre. \<not> auto_startable (node_winner e sc n p ev (hd ancestry) x)"
    and el: "auto_startable (node_winner e sc n p ev (hd ancestry) el)" by blast+
  from anc have "ancestry \<noteq> []" by auto
  then have "getActionInfo e sc n p ev ancestry = climb e sc n p ev (hd ancestry) ancestry"
    by (simp add: getActionInfo_climb)
  also have "\<dots> = climb e sc n p ev (hd ancestry) (pre @ el # post)"
    by (subst anc) (rule refl)
  also have "\<dots> = Inr (node_winner e sc n p ev (hd ancestry) el)"
    using pre el by (rule climb_first_auto)
  finally show "getActionInfo e sc n p ev ancestry =
      Inr (node_winner e sc n p ev (hd ancestry) el)" .
next
  assume h: "\<forall>x\<in>set ancestry. \<not> auto_startable (node_winner e sc n p ev (hd ancestry) x)"
  show "getActionInfo e sc n p ev ancestry = Inr no_action"
  proof (cases ancestry)
    case Nil
    then show ?thesis by (simp add: getActionInfo_def)
  next
    case (Cons t rest)
    with h have "climb e sc n p ev t ancestry = Inr no_action"
      by (intro climb_exhausted) simp
    with Cons show ?thesis by (simp add: getActionInfo_def)
  qed
next
  assume h: "manual_match (node_winner e sc n p ev child child) \<and>
    auto_startable (node_winner e sc n p ev child parent)"
  then have "\<not> auto_startable (node_winner e sc n p ev child child)"
    by (auto simp: manual_match_def auto_startable_def split: option.splits)
  with h have "climb e sc n p ev child ([child] @ parent # []) =
      Inr (node_winner e sc n p ev child parent)"
    by (intro climb_first_auto) simp_all
  then show "getActionInfo e sc n p ev [child, parent] = Inr (node_winner e sc n p ev child parent)"
    by (simp add: getActionInfo_def)
qed

lemma ex_winner_child:
  "node_winner ex_env (ex_scope PosInfinity [0] (\<lambda>_. ex_idle)) 0 0 0 1 1 =
     \<lparr>info_action = Some ex_drag,
      info_interactable = Some (ex_target 1 (ex_per_action True PosInfinity (Num 1))),
      info_element = Some 1\<rparr>"
  by (simp add: node_winner_def ex_env_def validateAction_def withinInteractionLimit_def
      ex_target_def ex_per_action_def ex_drag_def ex_scope_def ex_idle_def)

lemma ex_winner_parent:
  "node_winner ex_env (ex_scope PosInfinity [0] (\<lambda>_. ex_idle)) 0 0 0 1 2 =
     \<lparr>info_action = Some ex_drag,
      info_interactable = Some (ex_target 2 (ex_per_action False PosInfinity (Num 1))),
      info_element = Some 2\<rparr>"
  by (simp add: node_winner_def ex_env_def validateAction_def withinInteractionLimit_def
      ex_target_def ex_per_action_def ex_drag_def ex_scope_def ex_idle_def)

theorem resolver_first_auto_start_witness:
  "getActionInfo ex_env (ex_scope PosInfinity [0] (\<lambda>_. ex_idle)) 0 0 0 [1, 2] =
     Inr \<lparr>info_action = Some ex_drag,
          info_interactable = Some (ex_target 2 (ex_per_action False PosInfinity (Num 1))),
          info_element = Some 2\<rparr> \<and>
   getActionInfo ex_env (ex_scope PosInfinity [0] (\<lambda>_. ex_idle)) 0 0 0 [1] = Inr no_action"
proof -
  let ?sc = "ex_scope PosInfinity [0] (\<lambda>_. ex_idle)"
  have m: "manual_match (node_winner ex_env ?sc 0 0 0 1 1)"
    unfolding ex_winner_child manual_match_def by (simp add: ex_target_def ex_per_action_def)
  have a: "auto_startable (node_winner ex_env ?sc 0 0 0 1 2)"
    unfolding ex_winner_parent auto_startable_def by (simp add: ex_target_def ex_per_action_def)
  have na: "\<not> auto_startable (node_winner ex_env ?sc 0 0 0 1 1)"
    unfolding ex_winner_child auto_startable_def by (simp add: ex_target_def ex_per_action_def)
  have one: "getActionInfo ex_env ?sc 0 0 0 [1, 2] = Inr (node_winner ex_env ?sc 0 0 0 1 2)"
    using resolver_first_auto_start [where e = ex_env and sc = ?sc and n = 0 and p = 0
        and ev = 0 and child = 1 and parent = 2] m a by blast
  have first: "getActionInfo ex_env ?sc 0 0 0 [1, 2] =
      Inr (node_winner ex_env ?sc 0 0 0 (hd [1, 2]) 2)"
    using resolver_first_auto_start [where e = ex_env and sc = ?sc and n = 0 and p = 0
        and ev = 0 and ancestry = "[1, 2]" and pre = "[1]" and el = 2 and post = "[]"] na a
    by simp
  have none: "getActionInfo ex_env ?sc 0 0 0 [1] = Inr no_action"
    using resolver_first_auto_start [where e = ex_env and sc = ?sc and n = 0 and p = 0
        and ev = 0 and ancestry = "[1]"] na
    by simp
  from one none show ?thesis unfolding ex_winner_parent by blast
qed

section \<open>Properties of the cursor presentation\<close>

lemma setCursor_Some:
  "setCursor e (Some el) c sc =
     Inr (sc\<lparr>style_cursor :=
              ((case autoStart_cursorElement sc of
                  Some ce \<Rightarrow> (style_cursor sc)(ce := [])
                | None \<Rightarrow> style_cursor sc))(documentElement e el := c, el := c),
            autoStart_cursorElement := (if c \<noteq> [] then Some el else None)\<rparr>)"
  by (simp add: setCursor_def Let_def split: option.splits)

lemma setCursor_frame:
  assumes "setCursor e elem c sc = Inr sc'"
  shows "heap sc' = heap sc" and "interactions_list sc' = interactions_list sc"
    and "autoStart_maxInteractions sc' = autoStart_maxInteractions sc"
  using assms by (auto simp: setCursor_def Let_def split: option.splits)

lemma setCursor_inv:
  assumes "cursor_inv e sc" and "setCursor e (Some el) c sc = Inr sc'"
  shows "cursor_inv e sc'"
proof -
  from assms(2) have sc': "sc' = sc\<lparr>style_cursor :=
              ((case autoStart_cursorElement sc of
                  Some ce \<Rightarrow> (style_cursor sc)(ce := [])
                | None \<Rightarrow> style_cursor sc))(documentElement e el := c, el := c),
            autoStart_cursorElement := (if c \<noteq> [] then Some el else None)\<rparr>"
    by (simp add: setCursor_Some)
  show ?thesis
    unfolding cursor_inv_def
  proof (intro allI impI)
    fix x assume st: "style_cursor sc' x \<noteq> []"
    show "autoStart_cursorElement sc' = Some x \<or> (\<exists>y. documentElement e y = x)"
    proof (cases "x = el \<or> x = documentElement e el")
      case True
      with st show ?thesis by (auto simp: sc')
    next
      case False
      with st have old: "style_cursor sc x \<noteq> []" and nce: "autoStart_cursorElement sc \<noteq> Some x"
        by (auto simp: sc' split: option.splits if_splits)
      with assms(1) show ?thesis unfolding cursor_inv_def by blast
    qed
  qed
qed

text \<open>
  C5 (as amended). At most one element that is not a document element bears a cursor
  style, and it is the recorded \<^verbatim>\<open>cursorElement\<close>: this holds after every call of
  \<^verbatim>\<open>setCursor\<close> when it held before. The call clears the style of the previously
  recorded \<^verbatim>\<open>cursorElement\<close>, then applies the glyph to the given element and to the
  document element of its document, and records the element as \<^verbatim>\<open>cursorElement\<close>
  exactly when the glyph is not empty. On the stop of a session whose target has
  \<^verbatim>\<open>styleCursor\<close> enabled (and whose element is set), the override is cleared.
\<close>

theorem cursor_single_styled_element:
  assumes "cursor_inv e sc"
  shows "(setCursor e (Some el) c sc = Inr sc' \<longrightarrow>
            cursor_inv e sc' \<and>
            autoStart_cursorElement sc' = (if c \<noteq> [] then Some el else None) \<and>
            style_cursor sc' el = c \<and>
            style_cursor sc' (documentElement e el) = c \<and>
            (\<forall>ce. autoStart_cursorElement sc = Some ce \<and> ce \<noteq> el \<and> ce \<noteq> documentElement e el \<longrightarrow>
               style_cursor sc' ce = [])) \<and>
         (interactable (heap sc n) = Some i \<and> styleCursor (options i) \<and>
          element (heap sc n) = Some x \<longrightarrow>
            (\<exists>sc''. clearCursorOnStop e n sc = Inr sc'' \<and>
               cursor_inv e sc'' \<and>
               autoStart_cursorElement sc'' = None \<and>
               style_cursor sc'' x = [] \<and>
               (\<forall>ce. autoStart_cursorElement sc = Some ce \<longrightarrow> style_cursor sc'' ce = [])))"
proof (intro conjI impI)
  assume s: "setCursor e (Some el) c sc = Inr sc'"
  with assms show "cursor_inv e sc'" by (rule setCursor_inv)
  from s show "autoStart_cursorElement sc' = (if c \<noteq> [] then Some el else None)"
    and "style_cursor sc' el = c"
    and "style_cursor sc' (documentElement e el) = c"
    and "\<forall>ce. autoStart_cursorElement sc = Some ce \<and> ce \<noteq> el \<and> ce \<noteq> documentElement e el \<longrightarrow>
               style_cursor sc' ce = []"
    by (auto simp: setCursor_Some)
next
  assume h: "interactable (heap sc n) = Some i \<and> styleCursor (options i) \<and>
          element (heap sc n) = Some x"
  then have c: "clearCursorOnStop e n sc = setCursor e (Some x) [] sc"
    by (simp add: clearCursorOnStop_def)
  obtain sc'' where s: "setCursor e (Some x) [] sc = Inr sc''"
    by (simp add: setCursor_Some)
  from assms s have "cursor_inv e sc''" by (rule setCursor_inv)
  moreover from s have "autoStart_cursorElement sc'' = None" "style_cursor sc'' x = []"
    "\<forall>ce. autoStart_cursorElement sc = Some ce \<longrightarrow> style_cursor sc'' ce = []"
    by (auto simp: setCursor_Some)
  ultimately show "\<exists>sc''. clearCursorOnStop e n sc = Inr sc'' \<and>
               cursor_inv e sc'' \<and>
               autoStart_cursorElement sc'' = None \<and>
               style_cursor sc'' x = [] \<and>
               (\<forall>ce. autoStart_cursorElement sc = Some ce \<longrightarrow> style_cursor sc'' ce = [])"
    using c s by auto
qed

text \<open>
  The claim as the specification states it fails: one call of \<^verbatim>\<open>setCursor\<close> leaves two
  elements with the glyph, the element and the document element.
\<close>

theorem element_and_root_both_styled:
  "(case setCursor ex_env (Some 5) ''move'' (ex_scope PosInfinity [] (\<lambda>_. ex_idle)) of
      Inl err \<Rightarrow> False
    | Inr sc' \<Rightarrow> style_cursor sc' 5 = ''move'' \<and> style_cursor sc' 0 = ''move'') \<and>
   (5::nat) \<noteq> 0"
  by (simp add: setCursor_Some ex_env_def ex_scope_def)

theorem cursor_single_styled_element_witness:
  "cursor_inv ex_env (ex_scope PosInfinity [0] (\<lambda>_. ex_prepared (ex_target 2 (ex_per_action False PosInfinity (Num 1))) 5 ex_drag)) \<and>
   (case setCursor ex_env (Some 5) ''move''
           (ex_scope PosInfinity [0] (\<lambda>_. ex_prepared (ex_target 2 (ex_per_action False PosInfinity (Num 1))) 5 ex_drag)) of
      Inl err \<Rightarrow> False
    | Inr sc' \<Rightarrow> cursor_inv ex_env sc' \<and> autoStart_cursorElement sc' = Some 5 \<and>
        (case clearCursorOnStop ex_env 0 sc' of
           Inl err \<Rightarrow> False
         | Inr sc'' \<Rightarrow> autoStart_cursorElement sc'' = None \<and> style_cursor sc'' 5 = []))"
proof -
  let ?t = "ex_target 2 (ex_per_action False PosInfinity (Num 1))"
  let ?sc = "ex_scope PosInfinity [0] (\<lambda>_. ex_prepared ?t 5 ex_drag)"
  have inv: "cursor_inv ex_env ?sc" by (simp add: cursor_inv_def ex_scope_def)
  obtain sc' where s: "setCursor ex_env (Some 5) ''move'' ?sc = Inr sc'"
    by (simp add: setCursor_Some)
  from cursor_single_styled_element [OF inv, where el = 5 and c = "''move''" and sc' = sc'] s
  have inv': "cursor_inv ex_env sc'" and ce: "autoStart_cursorElement sc' = Some 5" by auto
  from setCursor_frame(1) [OF s] have hp: "heap sc' = heap ?sc" .
  have tgt: "interactable (heap sc' 0) = Some ?t \<and> styleCursor (options ?t) \<and>
      element (heap sc' 0) = Some 5"
    unfolding hp by (simp add: ex_scope_def ex_prepared_def ex_active_def ex_target_def)
  from cursor_single_styled_element [OF inv', where n = 0 and i = ?t and x = 5] tgt
  obtain sc'' where "clearCursorOnStop ex_env 0 sc' = Inr sc''"
    "autoStart_cursorElement sc'' = None" "style_cursor sc'' 5 = []" by blast
  with inv inv' ce s show ?thesis by simp
qed

section \<open>Properties of the lifecycle handlers\<close>

text \<open>
  C6 (as amended). On a pointer move while the pointer is not down and the session is not
  active, a session whose pointer type is \<^verbatim>\<open>mouse\<close> is resolved and prepared exactly as
  on pointer down; for any other pointer type \<^verbatim>\<open>prepareOnMove\<close> does nothing.
\<close>

theorem hover_prepare_mouse_only:
  "(pointerType (heap sc n) = ''mouse'' \<and> \<not> pointerIsDown (heap sc n) \<and>
    \<not> interacting (heap sc n) \<longrightarrow>
      prepareOnMove e n p ev ancestry sc = prepareOnDown e n p ev ancestry sc) \<and>
   (pointerType (heap sc n) \<noteq> ''mouse'' \<longrightarrow> prepareOnMove e n p ev ancestry sc = Inr sc)"
  by (simp add: prepareOnMove_def prepareOnDown_def)


theorem hover_prepare_mouse_only_witness:
  "pointerType (heap (ex_scope PosInfinity [0] (\<lambda>_. ex_idle)) 0) = ''mouse'' \<and>
   \<not> pointerIsDown (heap (ex_scope PosInfinity [0] (\<lambda>_. ex_idle)) 0) \<and>
   \<not> interacting (heap (ex_scope PosInfinity [0] (\<lambda>_. ex_idle)) 0) \<and>
   prepareOnMove ex_env 0 0 0 [2] (ex_scope PosInfinity [0] (\<lambda>_. ex_idle)) =
     prepareOnDown ex_env 0 0 0 [2] (ex_scope PosInfinity [0] (\<lambda>_. ex_idle)) \<and>
   pointerType (heap (ex_scope PosInfinity [0] (\<lambda>_. ex_touch)) 0) \<noteq> ''mouse'' \<and>
   prepareOnMove ex_env 0 0 0 [2] (ex_scope PosInfinity [0] (\<lambda>_. ex_touch)) =
     Inr (ex_scope PosInfinity [0] (\<lambda>_. ex_touch))"
proof -
  let ?m = "ex_scope PosInfinity [0] (\<lambda>_. ex_idle)"
  let ?t = "ex_scope PosInfinity [0] (\<lambda>_. ex_touch)"
  have m: "pointerType (heap ?m 0) = ''mouse'' \<and> \<not> pointerIsDown (heap ?m 0) \<and>
      \<not> interacting (heap ?m 0)"
    by (simp add: ex_scope_def ex_idle_def)
  have t: "pointerType (heap ?t 0) \<noteq> ''mouse''"
    by (simp add: ex_scope_def ex_idle_def ex_touch_def)
  from hover_prepare_mouse_only [where sc = ?m and n = 0 and e = ex_env and p = 0 and ev = 0
      and ancestry = "[2]"] m
  have a: "prepareOnMove ex_env 0 0 0 [2] ?m = prepareOnDown ex_env 0 0 0 [2] ?m" by blast
  from hover_prepare_mouse_only [where sc = ?t and n = 0 and e = ex_env and p = 0 and ev = 0
      and ancestry = "[2]"] t
  have b: "prepareOnMove ex_env 0 0 0 [2] ?t = Inr ?t" by blast
  from m t a b show ?thesis by blast
qed

lemma copyAction_src: "copyAction dest src = src"
  by (simp add: copyAction_def)

lemma ex_resolve_parent:
  "getActionInfo ex_env (ex_scope PosInfinity [0] (\<lambda>_. s)) 0 0 0 [2] =
     Inr \<lparr>info_action = Some ex_drag,
          info_interactable = Some (ex_target 2 (ex_per_action False PosInfinity (Num 1))),
          info_element = Some 2\<rparr>"
  if "\<not> interacting s"
  using that
  by (simp add: getActionInfo_def ex_env_def validateAction_def withinInteractionLimit_def
      ex_target_def ex_per_action_def ex_drag_def ex_scope_def Let_def)

text \<open>
  The claim as the specification states it fails: a hovering touch session is left as it
  is by \<^verbatim>\<open>prepareOnMove\<close>, where \<^verbatim>\<open>prepareOnDown\<close> prepares a drag.
\<close>

theorem touch_hover_not_prepared:
  "pointerType (heap (ex_scope PosInfinity [0] (\<lambda>_. ex_touch)) 0) = ''touch'' \<and>
   \<not> pointerIsDown (heap (ex_scope PosInfinity [0] (\<lambda>_. ex_touch)) 0) \<and>
   \<not> interacting (heap (ex_scope PosInfinity [0] (\<lambda>_. ex_touch)) 0) \<and>
   name (prepared (heap (ex_scope PosInfinity [0] (\<lambda>_. ex_touch)) 0)) = None \<and>
   prepareOnMove ex_env 0 0 0 [2] (ex_scope PosInfinity [0] (\<lambda>_. ex_touch)) =
     Inr (ex_scope PosInfinity [0] (\<lambda>_. ex_touch)) \<and>
   (case prepareOnDown ex_env 0 0 0 [2] (ex_scope PosInfinity [0] (\<lambda>_. ex_touch)) of
      Inl err \<Rightarrow> False
    | Inr sc' \<Rightarrow> name (prepared (heap sc' 0)) = Some ''drag'')"
proof -
  have ni: "\<not> interacting ex_touch" by (simp add: ex_touch_def ex_idle_def)
  have "prepareOnDown ex_env 0 0 0 [2] (ex_scope PosInfinity [0] (\<lambda>_. ex_touch)) =
      prepare ex_env 0
        \<lparr>info_action = Some ex_drag,
         info_interactable = Some (ex_target 2 (ex_per_action False PosInfinity (Num 1))),
         info_element = Some 2\<rparr> (ex_scope PosInfinity [0] (\<lambda>_. ex_touch))"
    unfolding prepareOnDown_def ex_resolve_parent [OF ni]
    by (simp add: ex_scope_def ni)
  then have down: "case prepareOnDown ex_env 0 0 0 [2] (ex_scope PosInfinity [0] (\<lambda>_. ex_touch)) of
      Inl err \<Rightarrow> False
    | Inr sc' \<Rightarrow> name (prepared (heap sc' 0)) = Some ''drag''"
    by (simp add: prepare_def setInteractionCursor_def copyAction_src ex_scope_def ex_touch_def
        ex_idle_def ex_drag_def ex_env_def Let_def)
  have move: "prepareOnMove ex_env 0 0 0 [2] (ex_scope PosInfinity [0] (\<lambda>_. ex_touch)) =
     Inr (ex_scope PosInfinity [0] (\<lambda>_. ex_touch))"
    by (simp add: prepareOnMove_def ex_scope_def ex_touch_def ex_idle_def)
  from down move show ?thesis
    by (simp add: ex_scope_def ex_touch_def ex_idle_def)
qed

text \<open>
  C7 (as amended). On a pointer move where the pointer is down, the session is not active,
  movement was recorded and \<^verbatim>\<open>prepared.name\<close> is not empty, the observers of
  \<^verbatim>\<open>autoStart:before-start\<close> are notified; then, if \<^verbatim>\<open>prepared.name\<close> is still not
  empty and the session has a target: the session is stopped when the target's option
  for that action has \<^verbatim>\<open>manualStart\<close> set or \<^verbatim>\<open>withinInteractionLimit\<close> rejects, and
  otherwise the session's start operation is invoked with the prepared action, the target
  and the element, and the cursor is refreshed. If an observer cleared the name, or the
  session has no target, nothing more happens. If one of the four preconditions fails,
  nothing happens at all.
\<close>

theorem startOnMove_after_observers:
  assumes "scb = fire e ''autoStart:before-start'' n sc"
  shows
  "(pointerIsDown (heap sc n) \<and> \<not> interacting (heap sc n) \<and> pointerWasMoved (heap sc n) \<and>
    truthy_name (name (prepared (heap sc n))) \<longrightarrow>
      (interactable (heap scb n) = Some i \<and> truthy_name (name (prepared (heap scb n))) \<longrightarrow>
         (manualStart (perAction (options i) (prop_key (name (prepared (heap scb n))))) \<or>
          \<not> withinInteractionLimit i (element (heap scb n)) (prepared (heap scb n)) scb \<longrightarrow>
            startOnMove e n sc = Inr (stop e n scb)) \<and>
         (\<not> manualStart (perAction (options i) (prop_key (name (prepared (heap scb n))))) \<and>
          withinInteractionLimit i (element (heap scb n)) (prepared (heap scb n)) scb \<longrightarrow>
            startOnMove e n sc =
              setInteractionCursor e n
                (start e n (prepared (heap scb n)) i (element (heap scb n)) scb))) \<and>
      (interactable (heap scb n) = None \<or> \<not> truthy_name (name (prepared (heap scb n))) \<longrightarrow>
         startOnMove e n sc = Inr scb)) \<and>
   (\<not> (pointerIsDown (heap sc n) \<and> \<not> interacting (heap sc n) \<and> pointerWasMoved (heap sc n) \<and>
       truthy_name (name (prepared (heap sc n)))) \<longrightarrow>
      startOnMove e n sc = Inr sc)"
  unfolding assms
  by (auto simp: startOnMove_def Let_def split: option.splits)


lemma ex_prepared_within:
  "withinInteractionLimit (ex_target k (ex_per_action m PosInfinity (Num 1))) (Some 2) ex_drag
     (ex_scope PosInfinity [0] (\<lambda>_. ex_prepared t 2 ex_drag))"
  by (simp add: withinInteractionLimit_def ex_target_def ex_per_action_def ex_drag_def
      ex_scope_def ex_prepared_def ex_active_def)

theorem startOnMove_after_observers_witness:
  "(case startOnMove ex_env 0
           (ex_scope PosInfinity [0]
              (\<lambda>_. ex_prepared (ex_target 2 (ex_per_action False PosInfinity (Num 1))) 2 ex_drag)) of
      Inl err \<Rightarrow> False
    | Inr sc' \<Rightarrow> interacting (heap sc' 0) \<and> autoStart_cursorElement sc' = Some 2 \<and>
        style_cursor sc' 2 = ''move'') \<and>
   (case startOnMove ex_env 0
           (ex_scope PosInfinity [0]
              (\<lambda>_. ex_prepared (ex_target 1 (ex_per_action True PosInfinity (Num 1))) 2 ex_drag)) of
      Inl err \<Rightarrow> False
    | Inr sc' \<Rightarrow> \<not> interacting (heap sc' 0) \<and> interactable (heap sc' 0) = None \<and>
        name (prepared (heap sc' 0)) = None) \<and>
   startOnMove ex_env 0 (ex_scope PosInfinity [0] (\<lambda>_. ex_idle)) =
     Inr (ex_scope PosInfinity [0] (\<lambda>_. ex_idle))"
proof -
  let ?a = "ex_target 2 (ex_per_action False PosInfinity (Num 1))"
  let ?m = "ex_target 1 (ex_per_action True PosInfinity (Num 1))"
  let ?sa = "ex_scope PosInfinity [0] (\<lambda>_. ex_prepared ?a 2 ex_drag)"
  let ?sm = "ex_scope PosInfinity [0] (\<lambda>_. ex_prepared ?m 2 ex_drag)"
  let ?si = "ex_scope PosInfinity [0] (\<lambda>_. ex_idle)"
  have fire: "sc = fire ex_env ''autoStart:before-start'' 0 sc" for sc
    by (simp add: ex_env_def)
  have pre: "pointerIsDown (heap (ex_scope PosInfinity [0] (\<lambda>_. ex_prepared t 2 ex_drag)) 0) \<and>
      \<not> interacting (heap (ex_scope PosInfinity [0] (\<lambda>_. ex_prepared t 2 ex_drag)) 0) \<and>
      pointerWasMoved (heap (ex_scope PosInfinity [0] (\<lambda>_. ex_prepared t 2 ex_drag)) 0) \<and>
      truthy_name (name (prepared (heap (ex_scope PosInfinity [0] (\<lambda>_. ex_prepared t 2 ex_drag)) 0)))"
    for t
    by (simp add: ex_scope_def ex_prepared_def ex_active_def ex_drag_def)
  have tgt: "interactable (heap (ex_scope PosInfinity [0] (\<lambda>_. ex_prepared t 2 ex_drag)) 0) = Some t \<and>
      element (heap (ex_scope PosInfinity [0] (\<lambda>_. ex_prepared t 2 ex_drag)) 0) = Some 2 \<and>
      prepared (heap (ex_scope PosInfinity [0] (\<lambda>_. ex_prepared t 2 ex_drag)) 0) = ex_drag" for t
    by (simp add: ex_scope_def ex_prepared_def ex_active_def)
  have auto_start: "\<not> manualStart (perAction (options ?a) (prop_key (name ex_drag)))"
    by (simp add: ex_target_def ex_per_action_def)
  have manual: "manualStart (perAction (options ?m) (prop_key (name ex_drag)))"
    by (simp add: ex_target_def ex_per_action_def)
  have started: "startOnMove ex_env 0 ?sa =
      setInteractionCursor ex_env 0 (start ex_env 0 ex_drag ?a (Some 2) ?sa)"
    using startOnMove_after_observers [where e = ex_env and n = 0 and sc = ?sa and scb = ?sa and i = ?a, OF fire]
      pre [of ?a] tgt [of ?a] auto_start ex_prepared_within [of 2 False ?a]
    by simp
  have stopped: "startOnMove ex_env 0 ?sm = Inr (stop ex_env 0 ?sm)"
    using startOnMove_after_observers [where e = ex_env and n = 0 and sc = ?sm and scb = ?sm and i = ?m, OF fire]
      pre [of ?m] tgt [of ?m] manual
    by simp
  have idle: "startOnMove ex_env 0 ?si = Inr ?si"
    using startOnMove_after_observers [where e = ex_env and n = 0 and sc = ?si and scb = ?si, OF fire]
    by (simp add: ex_scope_def ex_idle_def)
  have a: "case setInteractionCursor ex_env 0 (start ex_env 0 ex_drag ?a (Some 2) ?sa) of
      Inl err \<Rightarrow> False
    | Inr sc' \<Rightarrow> interacting (heap sc' 0) \<and> autoStart_cursorElement sc' = Some 2 \<and>
        style_cursor sc' 2 = ''move''"
    by (simp add: setInteractionCursor_def setCursor_def ex_env_def ex_scope_def ex_prepared_def
        ex_active_def ex_drag_def ex_target_def Let_def)
  have b: "\<not> interacting (heap (stop ex_env 0 ?sm) 0) \<and>
      interactable (heap (stop ex_env 0 ?sm) 0) = None \<and>
      name (prepared (heap (stop ex_env 0 ?sm) 0)) = None"
    by (simp add: ex_env_def ex_scope_def)
  show ?thesis unfolding started stopped idle using a b by simp
qed

text \<open>
  The claim as the specification states it fails: all preconditions hold, the target's
  drag starts automatically and is within the limits, but an observer of
  \<^verbatim>\<open>autoStart:before-start\<close> clears \<^verbatim>\<open>prepared.name\<close>; the session is then neither
  stopped nor started.
\<close>

theorem observer_veto_neither_stops_nor_starts:
  "pointerIsDown (heap (ex_scope PosInfinity [0]
      (\<lambda>_. ex_prepared (ex_target 2 (ex_per_action False PosInfinity (Num 1))) 2 ex_drag)) 0) \<and>
   \<not> interacting (heap (ex_scope PosInfinity [0]
      (\<lambda>_. ex_prepared (ex_target 2 (ex_per_action False PosInfinity (Num 1))) 2 ex_drag)) 0) \<and>
   pointerWasMoved (heap (ex_scope PosInfinity [0]
      (\<lambda>_. ex_prepared (ex_target 2 (ex_per_action False PosInfinity (Num 1))) 2 ex_drag)) 0) \<and>
   truthy_name (name (prepared (heap (ex_scope PosInfinity [0]
      (\<lambda>_. ex_prepared (ex_target 2 (ex_per_action False PosInfinity (Num 1))) 2 ex_drag)) 0))) \<and>
   \<not> manualStart (perAction (options (ex_target 2 (ex_per_action False PosInfinity (Num 1))))
        (prop_key (name ex_drag))) \<and>
   withinInteractionLimit (ex_target 2 (ex_per_action False PosInfinity (Num 1))) (Some 2) ex_drag
     (ex_scope PosInfinity [0]
        (\<lambda>_. ex_prepared (ex_target 2 (ex_per_action False PosInfinity (Num 1))) 2 ex_drag)) \<and>
   (case startOnMove ex_veto_env 0
           (ex_scope PosInfinity [0]
              (\<lambda>_. ex_prepared (ex_target 2 (ex_per_action False PosInfinity (Num 1))) 2 ex_drag)) of
      Inl err \<Rightarrow> False
    | Inr sc' \<Rightarrow> \<not> interacting (heap sc' 0) \<and>
        interactable (heap sc' 0) = Some (ex_target 2 (ex_per_action False PosInfinity (Num 1)))) \<and>
   interacting (heap (start ex_veto_env 0 ex_drag
       (ex_target 2 (ex_per_action False PosInfinity (Num 1))) (Some 2)
       (ex_scope PosInfinity [0]
          (\<lambda>_. ex_prepared (ex_target 2 (ex_per_action False PosInfinity (Num 1))) 2 ex_drag))) 0) \<and>
   interactable (heap (stop ex_veto_env 0
       (ex_scope PosInfinity [0]
          (\<lambda>_. ex_prepared (ex_target 2 (ex_per_action False PosInfinity (Num 1))) 2 ex_drag))) 0) =
     None"
proof -
  let ?a = "ex_target 2 (ex_per_action False PosInfinity (Num 1))"
  let ?sa = "ex_scope PosInfinity [0] (\<lambda>_. ex_prepared ?a 2 ex_drag)"
  have pre: "pointerIsDown (heap ?sa 0) \<and> \<not> interacting (heap ?sa 0) \<and>
      pointerWasMoved (heap ?sa 0) \<and> truthy_name (name (prepared (heap ?sa 0)))"
    by (simp add: ex_scope_def ex_prepared_def ex_active_def ex_drag_def)
  have auto_start: "\<not> manualStart (perAction (options ?a) (prop_key (name ex_drag)))"
    by (simp add: ex_target_def ex_per_action_def)
  have run: "case startOnMove ex_veto_env 0 ?sa of
      Inl err \<Rightarrow> False
    | Inr sc' \<Rightarrow> \<not> interacting (heap sc' 0) \<and> interactable (heap sc' 0) = Some ?a"
    by (simp add: startOnMove_def ex_veto_env_def ex_env_def ex_scope_def ex_prepared_def
        ex_active_def ex_drag_def Let_def)
  have ext: "interacting (heap (start ex_veto_env 0 ex_drag ?a (Some 2) ?sa) 0) \<and>
      interactable (heap (stop ex_veto_env 0 ?sa) 0) = None"
    by (simp add: ex_veto_env_def ex_env_def ex_scope_def)
  from pre auto_start ex_prepared_within [of 2 False ?a] run ext show ?thesis by blast
qed

lemma setInteractionCursor_frame:
  assumes "setInteractionCursor e n sc = Inr sc'"
  shows "heap sc' = heap sc" and "interactions_list sc' = interactions_list sc"
    and "autoStart_maxInteractions sc' = autoStart_maxInteractions sc"
  using assms
  by (auto simp: setInteractionCursor_def Let_def split: option.splits if_splits
      dest: setCursor_frame)

lemma prepare_Inr:
  assumes "prepare e n info sc = Inr sc'"
  shows "\<exists>sc3. sc' = fire e ''autoStart:prepared'' n sc3 \<and>
     heap sc3 = (heap sc)(n := (heap sc n)
       \<lparr>interactable := info_interactable info,
        element := info_element info,
        prepared := (case info_action info of Some a \<Rightarrow> a | None \<Rightarrow> \<lparr>name = None, axis = None, edges = None\<rparr>),
        rect := (case info_interactable info of
                   Some i \<Rightarrow>
                     if truthy_name (name (case info_action info of Some a \<Rightarrow> a | None \<Rightarrow> \<lparr>name = None, axis = None, edges = None\<rparr>))
                     then Some (getRect e i (info_element info))
                     else None
                 | None \<Rightarrow> None)\<rparr>) \<and>
     interactions_list sc3 = interactions_list sc \<and>
     autoStart_maxInteractions sc3 = autoStart_maxInteractions sc"
proof -
  let ?cleared = "case interactable (heap sc n) of
      Some old \<Rightarrow> if styleCursor (options old) then setCursor e (element (heap sc n)) [] sc else Inr sc
    | None \<Rightarrow> Inr sc"
  from assms obtain sc1 where c: "?cleared = Inr sc1"
    by (cases ?cleared) (simp_all add: prepare_def Let_def)
  then have f1: "heap sc1 = heap sc" "interactions_list sc1 = interactions_list sc"
    "autoStart_maxInteractions sc1 = autoStart_maxInteractions sc"
    by (auto split: option.splits if_splits dest: setCursor_frame)
  let ?s' = "(heap sc n)
       \<lparr>interactable := info_interactable info,
        element := info_element info,
        prepared := (case info_action info of Some a \<Rightarrow> a | None \<Rightarrow> \<lparr>name = None, axis = None, edges = None\<rparr>),
        rect := (case info_interactable info of
                   Some i \<Rightarrow>
                     if truthy_name (name (case info_action info of Some a \<Rightarrow> a | None \<Rightarrow> \<lparr>name = None, axis = None, edges = None\<rparr>))
                     then Some (getRect e i (info_element info))
                     else None
                 | None \<Rightarrow> None)\<rparr>"
  let ?sc2 = "sc1\<lparr>heap := (heap sc)(n := ?s')\<rparr>"
  from assms c f1 have p: "(case setInteractionCursor e n ?sc2 of
      Inl err \<Rightarrow> Inl err | Inr sc3 \<Rightarrow> Inr (fire e ''autoStart:prepared'' n sc3)) = Inr sc'"
    by (simp add: prepare_def Let_def copyAction_src)
  then obtain sc3 where s3: "setInteractionCursor e n ?sc2 = Inr sc3"
    and sc': "sc' = fire e ''autoStart:prepared'' n sc3"
    by (cases "setInteractionCursor e n ?sc2") auto
  from setInteractionCursor_frame [OF s3] f1
  have "heap sc3 = (heap sc)(n := ?s')" "interactions_list sc3 = interactions_list sc"
    "autoStart_maxInteractions sc3 = autoStart_maxInteractions sc" by simp_all
  with sc' show ?thesis by blast
qed

lemma getActionInfo_sound:
  assumes "getActionInfo e sc n p ev ancestry = Inr info"
  shows "info = no_action \<or>
     (\<exists>x\<in>set ancestry. info = node_winner e sc n p ev (hd ancestry) x \<and> auto_startable info)"
proof (cases "ancestry = []")
  case True
  with assms show ?thesis by (simp add: getActionInfo_climb)
next
  case False
  with assms have "climb e sc n p ev (hd ancestry) ancestry = Inr info"
    by (simp add: getActionInfo_climb)
  with climb_result [of e sc n p ev "hd ancestry" ancestry] show ?thesis by auto
qed

text \<open>
  C9. \<^verbatim>\<open>validateMatches\<close> returns an action only together with the matching
  interactable and element, for which \<^verbatim>\<open>validateAction\<close> accepted that action. When
  \<^verbatim>\<open>prepare\<close> is run on what \<^verbatim>\<open>getActionInfo\<close> resolved, the session it hands to the
  observers of \<^verbatim>\<open>autoStart:prepared\<close> holds exactly the resolved triple (the action
  \<^verbatim>\<open>{ name: null }\<close> and no target when nothing was resolved); so \<^verbatim>\<open>prepared.name\<close> is
  not empty only if the target and the element are set and the prepared action passed
  \<^verbatim>\<open>validateAction\<close> for them in the scope of the preparation: the allow/ignore filters,
  the \<^verbatim>\<open>enabled\<close> flag and \<^verbatim>\<open>withinInteractionLimit\<close>.
\<close>

theorem prepare_records_validated_target:
  assumes "getActionInfo e sc n p ev ancestry = Inr info"
    and "prepare e n info sc = Inr sc'"
  shows
  "(\<forall>a. info_action (validateMatches e sc n p ev pairs t) = Some a \<longrightarrow>
      (\<exists>m me. (m, me) \<in> set pairs \<and>
         info_interactable (validateMatches e sc n p ev pairs t) = Some m \<and>
         info_element (validateMatches e sc n p ev pairs t) = Some me \<and>
         validateAction e sc a m me t = Some a)) \<and>
   (\<exists>sc3. sc' = fire e ''autoStart:prepared'' n sc3 \<and>
      interactable (heap sc3 n) = info_interactable info \<and>
      element (heap sc3 n) = info_element info \<and>
      prepared (heap sc3 n) = (case info_action info of Some a \<Rightarrow> a | None \<Rightarrow> null_action) \<and>
      (info_action info = None \<longrightarrow>
         interactable (heap sc3 n) = None \<and> name (prepared (heap sc3 n)) = None) \<and>
      (truthy_name (name (prepared (heap sc3 n))) \<longrightarrow>
         (\<exists>i el. interactable (heap sc3 n) = Some i \<and> element (heap sc3 n) = Some el \<and>
            el \<in> set ancestry \<and> i \<in> set (forEachMatch e el) \<and>
            validateAction e sc (prepared (heap sc3 n)) i el (hd ancestry) =
              Some (prepared (heap sc3 n)) \<and>
            testIgnoreAllow e i
              (perAction (options i) (prop_key (name (prepared (heap sc3 n))))) el (hd ancestry) \<and>
            enabled (perAction (options i) (prop_key (name (prepared (heap sc3 n))))) \<and>
            withinInteractionLimit i (Some el) (prepared (heap sc3 n)) sc)))"
proof (intro conjI allI impI)
  fix a assume "info_action (validateMatches e sc n p ev pairs t) = Some a"
  from validateMatches_sound [OF this]
  show "\<exists>m me. (m, me) \<in> set pairs \<and>
         info_interactable (validateMatches e sc n p ev pairs t) = Some m \<and>
         info_element (validateMatches e sc n p ev pairs t) = Some me \<and>
         validateAction e sc a m me t = Some a"
    by force
next
  from prepare_Inr [OF assms(2)] obtain sc3 where
    sc': "sc' = fire e ''autoStart:prepared'' n sc3" and
    hp: "heap sc3 = (heap sc)(n := (heap sc n)
       \<lparr>interactable := info_interactable info,
        element := info_element info,
        prepared := (case info_action info of Some a \<Rightarrow> a
                     | None \<Rightarrow> \<lparr>name = None, axis = None, edges = None\<rparr>),
        rect := (case info_interactable info of
                   Some i \<Rightarrow>
                     if truthy_name (name (case info_action info of Some a \<Rightarrow> a
                            | None \<Rightarrow> \<lparr>name = None, axis = None, edges = None\<rparr>))
                     then Some (getRect e i (info_element info))
                     else None
                 | None \<Rightarrow> None)\<rparr>)"
    by blast
  have f: "interactable (heap sc3 n) = info_interactable info"
    "element (heap sc3 n) = info_element info"
    "prepared (heap sc3 n) = (case info_action info of Some a \<Rightarrow> a | None \<Rightarrow> null_action)"
    unfolding null_action_def by (simp_all add: hp)
  from getActionInfo_sound [OF assms(1)]
  have none: "interactable (heap sc3 n) = None \<and> name (prepared (heap sc3 n)) = None"
    if "info_action info = None"
  proof
    assume "info = no_action"
    then show ?thesis by (simp add: f no_action_def null_action_def)
  next
    assume "\<exists>x\<in>set ancestry. info = node_winner e sc n p ev (hd ancestry) x \<and> auto_startable info"
    with that show ?thesis by (auto simp: auto_startable_def)
  qed
  from getActionInfo_sound [OF assms(1)]
  have valid: "\<exists>i el. interactable (heap sc3 n) = Some i \<and> element (heap sc3 n) = Some el \<and>
            el \<in> set ancestry \<and> i \<in> set (forEachMatch e el) \<and>
            validateAction e sc (prepared (heap sc3 n)) i el (hd ancestry) =
              Some (prepared (heap sc3 n)) \<and>
            testIgnoreAllow e i
              (perAction (options i) (prop_key (name (prepared (heap sc3 n))))) el (hd ancestry) \<and>
            enabled (perAction (options i) (prop_key (name (prepared (heap sc3 n))))) \<and>
            withinInteractionLimit i (Some el) (prepared (heap sc3 n)) sc"
    if tn: "truthy_name (name (prepared (heap sc3 n)))"
  proof
    assume "info = no_action"
    with tn show ?thesis by (simp add: f no_action_def null_action_def)
  next
    assume "\<exists>x\<in>set ancestry. info = node_winner e sc n p ev (hd ancestry) x \<and> auto_startable info"
    then obtain x where x: "x \<in> set ancestry" "info = node_winner e sc n p ev (hd ancestry) x"
      "auto_startable info" by blast
    from x(3) obtain a where a: "info_action info = Some a"
      by (auto simp: auto_startable_def split: option.splits)
    from node_winner_target [OF a [unfolded x(2)]] x(2) obtain m where
      m: "m \<in> set (forEachMatch e x)"
      "info = \<lparr>info_action = Some a, info_interactable = Some m, info_element = Some x\<rparr>"
      "validateAction e sc a m x (hd ancestry) = Some a" by auto
    from m(3) have "testIgnoreAllow e m (perAction (options m) (prop_key (name a))) x (hd ancestry) \<and>
        enabled (perAction (options m) (prop_key (name a))) \<and>
        withinInteractionLimit m (Some x) a sc"
      by (simp add: validateAction_def split: if_splits)
    with m x(1) show ?thesis by (simp add: f)
  qed
  show "\<exists>sc3. sc' = fire e ''autoStart:prepared'' n sc3 \<and>
      interactable (heap sc3 n) = info_interactable info \<and>
      element (heap sc3 n) = info_element info \<and>
      prepared (heap sc3 n) = (case info_action info of Some a \<Rightarrow> a | None \<Rightarrow> null_action) \<and>
      (info_action info = None \<longrightarrow>
         interactable (heap sc3 n) = None \<and> name (prepared (heap sc3 n)) = None) \<and>
      (truthy_name (name (prepared (heap sc3 n))) \<longrightarrow>
         (\<exists>i el. interactable (heap sc3 n) = Some i \<and> element (heap sc3 n) = Some el \<and>
            el \<in> set ancestry \<and> i \<in> set (forEachMatch e el) \<and>
            validateAction e sc (prepared (heap sc3 n)) i el (hd ancestry) =
              Some (prepared (heap sc3 n)) \<and>
            testIgnoreAllow e i
              (perAction (options i) (prop_key (name (prepared (heap sc3 n))))) el (hd ancestry) \<and>
            enabled (perAction (options i) (prop_key (name (prepared (heap sc3 n))))) \<and>
            withinInteractionLimit i (Some el) (prepared (heap sc3 n)) sc))"
  proof (rule exI [of _ sc3], intro conjI impI)
    show "sc' = fire e ''autoStart:prepared'' n sc3" by (rule sc')
    show "interactable (heap sc3 n) = info_interactable info" by (rule f(1))
    show "element (heap sc3 n) = info_element info" by (rule f(2))
    show "prepared (heap sc3 n) = (case info_action info of Some a \<Rightarrow> a | None \<Rightarrow> null_action)"
      by (rule f(3))
    show "interactable (heap sc3 n) = None" "name (prepared (heap sc3 n)) = None"
      if "info_action info = None"
      using none [OF that] by simp_all
    show "\<exists>i el. interactable (heap sc3 n) = Some i \<and> element (heap sc3 n) = Some el \<and>
            el \<in> set ancestry \<and> i \<in> set (forEachMatch e el) \<and>
            validateAction e sc (prepared (heap sc3 n)) i el (hd ancestry) =
              Some (prepared (heap sc3 n)) \<and>
            testIgnoreAllow e i
              (perAction (options i) (prop_key (name (prepared (heap sc3 n))))) el (hd ancestry) \<and>
            enabled (perAction (options i) (prop_key (name (prepared (heap sc3 n))))) \<and>
            withinInteractionLimit i (Some el) (prepared (heap sc3 n)) sc"
      if "truthy_name (name (prepared (heap sc3 n)))"
      using valid [OF that] .
  qed
qed


theorem prepare_records_validated_target_witness:
  "getActionInfo ex_env (ex_scope PosInfinity [0] (\<lambda>_. ex_idle)) 0 0 0 [2] =
     Inr \<lparr>info_action = Some ex_drag,
          info_interactable = Some (ex_target 2 (ex_per_action False PosInfinity (Num 1))),
          info_element = Some 2\<rparr> \<and>
   (case prepare ex_env 0
           \<lparr>info_action = Some ex_drag,
            info_interactable = Some (ex_target 2 (ex_per_action False PosInfinity (Num 1))),
            info_element = Some 2\<rparr>
           (ex_scope PosInfinity [0] (\<lambda>_. ex_idle)) of
      Inl err \<Rightarrow> False
    | Inr sc' \<Rightarrow>
        truthy_name (name (prepared (heap sc' 0))) \<and>
        interactable (heap sc' 0) = Some (ex_target 2 (ex_per_action False PosInfinity (Num 1))) \<and>
        element (heap sc' 0) = Some 2 \<and>
        validateAction ex_env (ex_scope PosInfinity [0] (\<lambda>_. ex_idle)) (prepared (heap sc' 0))
          (ex_target 2 (ex_per_action False PosInfinity (Num 1))) 2 2 =
          Some (prepared (heap sc' 0)))"
proof -
  let ?t = "ex_target 2 (ex_per_action False PosInfinity (Num 1))"
  let ?sc = "ex_scope PosInfinity [0] (\<lambda>_. ex_idle)"
  let ?info = "\<lparr>info_action = Some ex_drag, info_interactable = Some ?t, info_element = Some 2\<rparr>"
  have g: "getActionInfo ex_env ?sc 0 0 0 [2] = Inr ?info"
    by (rule ex_resolve_parent) (simp add: ex_idle_def)
  obtain sc' where pr: "prepare ex_env 0 ?info ?sc = Inr sc'"
    by (simp add: prepare_def setInteractionCursor_def setCursor_def ex_scope_def ex_idle_def
        ex_drag_def ex_target_def ex_env_def copyAction_src Let_def)
  from prepare_records_validated_target [OF g pr]
  obtain sc3 where sc3: "sc' = fire ex_env ''autoStart:prepared'' 0 sc3"
    "interactable (heap sc3 0) = info_interactable ?info"
    "element (heap sc3 0) = info_element ?info"
    "prepared (heap sc3 0) = (case info_action ?info of Some a \<Rightarrow> a | None \<Rightarrow> null_action)"
    "truthy_name (name (prepared (heap sc3 0))) \<longrightarrow>
       (\<exists>i el. interactable (heap sc3 0) = Some i \<and> element (heap sc3 0) = Some el \<and>
          el \<in> set [2] \<and> i \<in> set (forEachMatch ex_env el) \<and>
          validateAction ex_env ?sc (prepared (heap sc3 0)) i el (hd [2]) =
            Some (prepared (heap sc3 0)) \<and>
          testIgnoreAllow ex_env i
            (perAction (options i) (prop_key (name (prepared (heap sc3 0))))) el (hd [2]) \<and>
          enabled (perAction (options i) (prop_key (name (prepared (heap sc3 0))))) \<and>
          withinInteractionLimit i (Some el) (prepared (heap sc3 0)) ?sc)"
    by blast
  from sc3(1) have same: "sc' = sc3" by (simp add: ex_env_def)
  from sc3(4) have tn: "truthy_name (name (prepared (heap sc3 0)))" by (simp add: ex_drag_def)
  with sc3(5) obtain i el where v: "interactable (heap sc3 0) = Some i"
    "element (heap sc3 0) = Some el"
    "validateAction ex_env ?sc (prepared (heap sc3 0)) i el (hd [2]) = Some (prepared (heap sc3 0))"
    by blast
  from v(1) sc3(2) have i: "i = ?t" by simp
  from v(2) sc3(3) have el: "el = 2" by simp
  from g pr tn sc3(2,3) v(3) show ?thesis unfolding same i el by simp
qed

text \<open>
  C10. When nothing was resolved, \<^verbatim>\<open>prepare\<close> still overwrites the session (whose
  element is set when its target is): the interactable and the element become
  \<^verbatim>\<open>null\<close>, the prepared action is \<^verbatim>\<open>{ name: null }\<close>, the rect is \<^verbatim>\<open>null\<close>; and when
  the previous target had \<^verbatim>\<open>styleCursor\<close> enabled, the cursor styling is cleared first
  by \<^verbatim>\<open>setCursor\<close> with the empty glyph. The observers of \<^verbatim>\<open>autoStart:prepared\<close> are
  then notified.
\<close>

theorem failed_resolution_wipes_prepared:
  assumes "interactable (heap sc n) \<noteq> None \<longrightarrow> element (heap sc n) \<noteq> None"
  shows "\<exists>sc1 sc3.
     prepare e n no_action sc = Inr (fire e ''autoStart:prepared'' n sc3) \<and>
     sc3 = sc1\<lparr>heap := (heap sc)(n := (heap sc n)
              \<lparr>interactable := None, element := None, prepared := null_action, rect := None\<rparr>)\<rparr> \<and>
     interactable (heap sc3 n) = None \<and> element (heap sc3 n) = None \<and>
     name (prepared (heap sc3 n)) = None \<and> rect (heap sc3 n) = None \<and>
     ((\<exists>old. interactable (heap sc n) = Some old \<and> styleCursor (options old)) \<longrightarrow>
        setCursor e (element (heap sc n)) [] sc = Inr sc1 \<and>
        autoStart_cursorElement sc3 = None \<and>
        (\<forall>ce. autoStart_cursorElement sc = Some ce \<longrightarrow> style_cursor sc3 ce = []) \<and>
        (\<forall>el. element (heap sc n) = Some el \<longrightarrow>
           style_cursor sc3 el = [] \<and> style_cursor sc3 (documentElement e el) = [])) \<and>
     (\<not> (\<exists>old. interactable (heap sc n) = Some old \<and> styleCursor (options old)) \<longrightarrow> sc1 = sc) \<and>
     (getActionInfo e sc n p ev ancestry = Inr no_action \<and> \<not> interacting (heap sc n) \<longrightarrow>
        prepareOnDown e n p ev ancestry sc = prepare e n no_action sc)"
proof -
  let ?s' = "(heap sc n)\<lparr>interactable := None, element := None, prepared := null_action,
      rect := None\<rparr>"
  have down: "getActionInfo e sc n p ev ancestry = Inr no_action \<and> \<not> interacting (heap sc n) \<longrightarrow>
        prepareOnDown e n p ev ancestry sc = prepare e n no_action sc"
    by (simp add: prepareOnDown_def)
  have rest: "prepare e n no_action sc =
      Inr (fire e ''autoStart:prepared'' n (sc1\<lparr>heap := (heap sc)(n := ?s')\<rparr>))"
    if "(case interactable (heap sc n) of
          Some old \<Rightarrow> if styleCursor (options old)
                      then setCursor e (element (heap sc n)) [] sc else Inr sc
        | None \<Rightarrow> Inr sc) = Inr sc1" and "heap sc1 = heap sc" for sc1
    using that
    by (simp add: prepare_def no_action_def null_action_def copyAction_src Let_def
        setInteractionCursor_def)
  show ?thesis
  proof (cases "\<exists>old. interactable (heap sc n) = Some old \<and> styleCursor (options old)")
    case False
    then have c: "(case interactable (heap sc n) of
          Some old \<Rightarrow> if styleCursor (options old)
                      then setCursor e (element (heap sc n)) [] sc else Inr sc
        | None \<Rightarrow> Inr sc) = Inr sc"
      by (auto split: option.splits)
    from rest [OF c] False down show ?thesis
      by - (rule exI [of _ sc], rule exI [of _ "sc\<lparr>heap := (heap sc)(n := ?s')\<rparr>"],
        auto simp add: null_action_def)
  next
    case True
    then obtain old where old: "interactable (heap sc n) = Some old" "styleCursor (options old)"
      by blast
    with assms obtain el where el: "element (heap sc n) = Some el" by auto
    obtain sc1 where s: "setCursor e (Some el) [] sc = Inr sc1"
      by (simp add: setCursor_Some)
    from old el s have c: "(case interactable (heap sc n) of
          Some old \<Rightarrow> if styleCursor (options old)
                      then setCursor e (element (heap sc n)) [] sc else Inr sc
        | None \<Rightarrow> Inr sc) = Inr sc1"
      by simp
    from s have cur: "autoStart_cursorElement sc1 = None"
      "\<forall>ce. autoStart_cursorElement sc = Some ce \<longrightarrow> style_cursor sc1 ce = []"
      "style_cursor sc1 el = []" "style_cursor sc1 (documentElement e el) = []"
      by (auto simp: setCursor_Some)
    from rest [OF c setCursor_frame(1) [OF s]] True down el s cur show ?thesis
      by - (rule exI [of _ sc1], rule exI [of _ "sc1\<lparr>heap := (heap sc)(n := ?s')\<rparr>"],
        auto simp add: null_action_def)
  qed
qed

theorem failed_resolution_wipes_prepared_witness:
  "name (prepared (heap ex_hovering 0)) = Some ''drag'' \<and>
   style_cursor ex_hovering 2 = ''move'' \<and>
   getActionInfo ex_env ex_hovering 0 0 0 [5] = Inr no_action \<and>
   (case prepareOnDown ex_env 0 0 0 [5] ex_hovering of
      Inl err \<Rightarrow> False
    | Inr sc' \<Rightarrow>
        interactable (heap sc' 0) = None \<and> element (heap sc' 0) = None \<and>
        name (prepared (heap sc' 0)) = None \<and> rect (heap sc' 0) = None \<and>
        autoStart_cursorElement sc' = None \<and> style_cursor sc' 2 = [])"
proof -
  have init: "name (prepared (heap ex_hovering 0)) = Some ''drag'' \<and>
      style_cursor ex_hovering 2 = ''move''"
    by (simp add: ex_hovering_def ex_drag_def)
  have g: "getActionInfo ex_env ex_hovering 0 0 0 [5] = Inr no_action"
    by (simp add: getActionInfo_def climb_step node_winner_def auto_startable_def ex_env_def
        no_action_def del: climb.simps(2))
  have ni: "\<not> interacting (heap ex_hovering 0)"
    by (simp add: ex_hovering_def ex_idle_def)
  have wf: "interactable (heap ex_hovering 0) \<noteq> None \<longrightarrow> element (heap ex_hovering 0) \<noteq> None"
    by (simp add: ex_hovering_def)
  have styled: "\<exists>old. interactable (heap ex_hovering 0) = Some old \<and> styleCursor (options old)"
    by (simp add: ex_hovering_def ex_target_def)
  have el: "element (heap ex_hovering 0) = Some 2"
    by (simp add: ex_hovering_def)
  from failed_resolution_wipes_prepared [OF wf, where e = ex_env and p = 0 and ev = 0
      and ancestry = "[5]"] g ni styled el
  obtain sc3 where r: "prepareOnDown ex_env 0 0 0 [5] ex_hovering =
        Inr (fire ex_env ''autoStart:prepared'' 0 sc3)"
    "interactable (heap sc3 0) = None" "element (heap sc3 0) = None"
    "name (prepared (heap sc3 0)) = None" "rect (heap sc3 0) = None"
    "autoStart_cursorElement sc3 = None" "style_cursor sc3 2 = []"
    by auto
  have "fire ex_env ''autoStart:prepared'' 0 sc3 = sc3" by (simp add: ex_env_def)
  with r init g show ?thesis by simp
qed

end
